theory Spec2Isabelle
  imports Main "HOL-Library.Sublist" "HOL-Library.AList"
begin

section \<open>The file system seen by \<open>setup.pyw\<close>\<close>

text \<open>
  The installer of yw-table (\<open>src/setup.pyw\<close>) only acts on the file system and on the
  module-level list \<open>message\<close>. The file system is kept as an association list from
  paths to entries; a path is the list of its components, so that the Python string
  \<open>f'{pywriterPath}{APPNAME}'\<close> (where \<open>pywriterPath\<close> ends in a slash) is
  \<open>pywriterPath @ [APPNAME]\<close>. A regular file carries its content and its owner-execute
  bit. Lookup is \<open>map_of\<close>, so the first entry of a path is the one that counts.

  The library calls used by the installer are modelled after their documented behaviour
  on such a tree. They fail for the reasons that can be read off the tree (a missing
  entry, an entry of the wrong kind, an existing target); refusals by the operating system
  for other reasons (permissions, locks, a full disk) are outside the model. A call that
  raises leaves the tree as it was.
\<close>

type_synonym path = "string list"

datatype entry = File string bool | Dir

type_synonym filesystem = "(path \<times> entry) list"

datatype error =
    FileExistsError path
  | FileNotFoundError path
  | IsADirectoryError path
  | NotADirectoryError path
  | SameFileError path path
  | ShutilError path path

text \<open>\<open>os.path.isfile\<close> and \<open>os.path.isdir\<close>.\<close>

definition isfile :: "filesystem \<Rightarrow> path \<Rightarrow> bool" where
  "isfile fs p = (case map_of fs p of Some (File c x) \<Rightarrow> True | Some Dir \<Rightarrow> False | None \<Rightarrow> False)"

definition isdir :: "filesystem \<Rightarrow> path \<Rightarrow> bool" where
  "isdir fs p = (case map_of fs p of Some Dir \<Rightarrow> True | Some (File c x) \<Rightarrow> False | None \<Rightarrow> False)"

text \<open>
  \<open>os.makedirs(p, exist_ok=...)\<close>: every missing directory on the way to \<open>p\<close> is
  created. The call raises when \<open>p\<close> or one of its ancestors is a regular file, and, with
  \<open>exist_ok=False\<close>, when \<open>p\<close> is already a directory.
\<close>

definition makedirs :: "filesystem \<Rightarrow> path \<Rightarrow> bool \<Rightarrow> error + filesystem" where
  "makedirs fs p exist_ok =
     (case filter (isfile fs) (tl (prefixes p)) of
        q # qs \<Rightarrow> Inl (if q = p then FileExistsError p else NotADirectoryError p)
      | [] \<Rightarrow>
          if isdir fs p \<and> \<not> exist_ok then Inl (FileExistsError p)
          else Inr (fs @ map (\<lambda>q. (q, Dir)) (filter (\<lambda>q. map_of fs q = None) (tl (prefixes p)))))"

text \<open>
  \<open>shutil.rmtree(p, ignore_errors=True)\<close>: a directory is removed with everything below
  it; on anything else the error is ignored and nothing happens.
\<close>

definition rmtree :: "filesystem \<Rightarrow> path \<Rightarrow> filesystem" where
  "rmtree fs p = (if isdir fs p then filter (\<lambda>(q, e). \<not> prefix p q) fs else fs)"

text \<open>
  \<open>os.scandir(p)\<close>, reduced to the names it yields (\<open>file.name\<close>); the order is the
  order of the entries in the list.
\<close>

definition scandir :: "filesystem \<Rightarrow> path \<Rightarrow> error + string list" where
  "scandir fs p =
     (case map_of fs p of
        None \<Rightarrow> Inl (FileNotFoundError p)
      | Some (File c x) \<Rightarrow> Inl (NotADirectoryError p)
      | Some Dir \<Rightarrow>
          Inr (remdups (map (\<lambda>(q, e). last q) (filter (\<lambda>(q, e). q \<noteq> [] \<and> butlast q = p) fs))))"

text \<open>\<open>os.remove(p)\<close> removes a regular file and raises on a directory.\<close>

definition remove :: "filesystem \<Rightarrow> path \<Rightarrow> error + filesystem" where
  "remove fs p =
     (case map_of fs p of
        None \<Rightarrow> Inl (FileNotFoundError p)
      | Some Dir \<Rightarrow> Inl (IsADirectoryError p)
      | Some (File c x) \<Rightarrow> Inr (AList.delete p fs))"

text \<open>
  \<open>open(p, 'w')\<close> or \<open>open(p, 'wb')\<close> followed by writing \<open>data\<close>: an existing file is
  truncated and keeps its mode, a new file is created in an existing directory. The
  content of a file is the text handed to \<open>write\<close>; the translation of line ends that
  text mode performs on some platforms is not modelled.
\<close>

definition write_file :: "filesystem \<Rightarrow> path \<Rightarrow> string \<Rightarrow> error + filesystem" where
  "write_file fs p data =
     (case map_of fs p of
        Some Dir \<Rightarrow> Inl (IsADirectoryError p)
      | Some (File c x) \<Rightarrow> Inr (AList.update p (File data x) fs)
      | None \<Rightarrow>
          if p \<noteq> [] \<and> isdir fs (butlast p) then Inr (AList.update p (File data False) fs)
          else Inl (FileNotFoundError p))"

text \<open>
  \<open>shutil.copyfile(src, dst)\<close>: raises \<open>SameFileError\<close> when both name the same existing
  file, opens the source for reading first, then writes the target.
\<close>

definition copyfile :: "filesystem \<Rightarrow> path \<Rightarrow> path \<Rightarrow> error + filesystem" where
  "copyfile fs src dst =
     (if src = dst \<and> map_of fs src \<noteq> None then Inl (SameFileError src dst)
      else case map_of fs src of
             None \<Rightarrow> Inl (FileNotFoundError src)
           | Some Dir \<Rightarrow> Inl (IsADirectoryError src)
           | Some (File c x) \<Rightarrow> write_file fs dst c)"

text \<open>
  \<open>shutil.copytree(src, dst)\<close> with its defaults: the source is listed first, then
  \<open>os.makedirs(dst)\<close> runs with \<open>exist_ok=False\<close>, then every entry below the source is
  copied with its mode. When the target lies inside the source, the library descends into
  the tree it is writing until the operating system rejects a path, and raises; the model
  raises at once.
\<close>

definition copytree :: "filesystem \<Rightarrow> path \<Rightarrow> path \<Rightarrow> error + filesystem" where
  "copytree fs src dst =
     (case map_of fs src of
        None \<Rightarrow> Inl (FileNotFoundError src)
      | Some (File c x) \<Rightarrow> Inl (NotADirectoryError src)
      | Some Dir \<Rightarrow>
          (case makedirs fs dst False of
             Inl e \<Rightarrow> Inl e
           | Inr fs' \<Rightarrow>
               if prefix src dst then Inl (ShutilError src dst)
               else Inr (fs' @ map (\<lambda>(q, e). (dst @ drop (length src) q, e))
                                  (filter (\<lambda>(q, e). strict_prefix src q) fs))))"

text \<open>
  \<open>st = os.stat(p); os.chmod(p, st.st_mode | stat.S_IEXEC)\<close>. Directories carry no mode
  in the model.
\<close>

definition add_exec_bit :: "filesystem \<Rightarrow> path \<Rightarrow> error + filesystem" where
  "add_exec_bit fs p =
     (case map_of fs p of
        None \<Rightarrow> Inl (FileNotFoundError p)
      | Some Dir \<Rightarrow> Inr fs
      | Some (File c x) \<Rightarrow> Inr (AList.update p (File c True) fs))"

text \<open>
  A tree is well formed when the root is a directory and every other entry lies in a
  directory.
\<close>

definition wf_fs :: "filesystem \<Rightarrow> bool" where
  "wf_fs fs = (map_of fs [] = Some Dir \<and>
     list_all (\<lambda>(q, e). q = [] \<or> map_of fs (butlast q) = Some Dir) fs)"

section \<open>The installer\<close>

text \<open>Module-level constants of \<open>setup.pyw\<close> (lines 38--62).\<close>

definition nl :: char where
  "nl = CHR 0x0A"

definition quoted :: "string \<Rightarrow> string" where
  "quoted s = CHR 0x22 # s @ [CHR 0x22]"

definition APPNAME :: string where
  "APPNAME = ''yw_table''"

definition APP :: string where
  "APP = APPNAME @ ''.py''"

definition INI_FILE :: string where
  "INI_FILE = APPNAME @ ''.ini''"

definition INI_PATH :: path where
  "INI_PATH = [''config'']"

definition SAMPLE_PATH :: path where
  "SAMPLE_PATH = [''sample'']"

definition path_str :: "path \<Rightarrow> string" where
  "path_str p = concat (map (\<lambda>c. CHR ''/'' # c) p)"

text \<open>
  The two templates after \<open>Template(...).safe_substitute(mapping)\<close>, as functions of the
  values substituted for \<open>$Appname\<close> and \<open>$Apppath\<close>.
\<close>

definition SUCCESS_MESSAGE :: "string \<Rightarrow> string \<Rightarrow> string" where
  "SUCCESS_MESSAGE appname apppath =
     [nl] @ appname @ '' is installed here:'' @ [nl] @ apppath @ [nl]"

definition SHORTCUT_MESSAGE :: "string \<Rightarrow> string" where
  "SHORTCUT_MESSAGE apppath =
     [nl] @ ''Now you might want to create a shortcut on your desktop.  '' @ [nl]
     @ [nl]
     @ ''On Windows, open the installation folder, hold down the Alt key on your keyboard, '' @ [nl]
     @ ''and then drag and drop '' @ quoted ''run.pyw'' @ '' to your desktop.'' @ [nl]
     @ [nl]
     @ ''On Linux, create a launcher on your desktop. With xfce for instance, the launcher''
     @ [CHR 0x27] @ ''s command may look like this:'' @ [nl]
     @ ''python3 '' @ [CHR 0x27] @ apppath @ [CHR 0x27] @ '' %f'' @ [nl]"

definition START_UP_SCRIPT :: string where
  "START_UP_SCRIPT = ''run.pyw''"

definition START_UP_CODE :: string where
  "START_UP_CODE = ''import '' @ APPNAME @ [nl] @ APPNAME @ ''.main()'' @ [nl]"

text \<open>
  The state the installer acts on: the file system, the working directory (the directory
  of the script, where the bundle lies), whether \<open>platform.system()\<close> is \<open>'Windows'\<close>,
  and the global list \<open>message\<close>.
\<close>

record state =
  files :: filesystem
  cwd :: path
  windows :: bool
  message :: "string list"

text \<open>
  \<open>output\<close> (lines 69--71), named \<open>output_text\<close> here because \<open>output\<close> is a keyword
  of Isabelle; the label it refreshes belongs to the window.
\<close>

definition output_text :: "string \<Rightarrow> state \<Rightarrow> state" where
  "output_text txt st = st\<lparr>message := message st @ [txt]\<rparr>"

text \<open>The string of an exception, \<open>str(ex)\<close>, up to the library's exact wording.\<close>

fun error_str :: "error \<Rightarrow> string" where
  "error_str (FileExistsError p) = ''[Errno 17] File exists: '' @ path_str p"
| "error_str (FileNotFoundError p) = ''[Errno 2] No such file or directory: '' @ path_str p"
| "error_str (IsADirectoryError p) = ''[Errno 21] Is a directory: '' @ path_str p"
| "error_str (NotADirectoryError p) = ''[Errno 20] Not a directory: '' @ path_str p"
| "error_str (SameFileError p q) = path_str p @ '' and '' @ path_str q @ '' are the same file''"
| "error_str (ShutilError p q) = ''Cannot copy '' @ path_str p @ '' into '' @ path_str q"

text \<open>
  Lines 107--114: the loop over the entries of the installation directory. A removal that
  raises is passed over.
\<close>

fun purge :: "path \<Rightarrow> string list \<Rightarrow> state \<Rightarrow> state" where
  "purge installDir [] st = st"
| "purge installDir (name # names) st =
     purge installDir names
       (if \<not> sublist ''config'' name then
          (case remove (files st) (installDir @ [name]) of
             Inr fs' \<Rightarrow> output_text (''Removing '' @ quoted name) (st\<lparr>files := fs'\<rparr>)
           | Inl e \<Rightarrow> st)
        else st)"

text \<open>Lines 105--114: delete the old version, but retain configuration, if any.\<close>

definition delete_old_version :: "path \<Rightarrow> state \<Rightarrow> error option \<times> state" where
  "delete_old_version installDir st =
     (let st1 = st\<lparr>files := rmtree (files st) (installDir @ [''locale''])\<rparr> in
      case scandir (files st1) installDir of
        Inl e \<Rightarrow> (Some e, st1)
      | Inr names \<Rightarrow> (None, purge installDir names st1))"

text \<open>
  Lines 116--129: install the new version and the localization files, and make the
  script executable.
\<close>

definition install_new_version :: "path \<Rightarrow> state \<Rightarrow> error option \<times> state" where
  "install_new_version installDir st =
     (case copyfile (files st) (cwd st @ [APP]) (installDir @ [APP]) of
        Inl e \<Rightarrow> (Some e, st)
      | Inr fs1 \<Rightarrow>
          let st1 = output_text (''Copying '' @ quoted APP) (st\<lparr>files := fs1\<rparr>) in
          (case copytree (files st1) (cwd st1 @ [''locale'']) (installDir @ [''locale'']) of
             Inl e \<Rightarrow> (Some e, st1)
           | Inr fs2 \<Rightarrow>
               let st2 = output_text (''Copying '' @ quoted ''locale'') (st1\<lparr>files := fs2\<rparr>) in
               (case add_exec_bit (files st2) (installDir @ [APP]) of
                  Inl e \<Rightarrow> (None, st2)
                | Inr fs3 \<Rightarrow> (None, st2\<lparr>files := fs3\<rparr>))))"

text \<open>Lines 134--139: the loop over the sample files; a copy that raises ends it.\<close>

fun seed :: "path \<Rightarrow> string list \<Rightarrow> state \<Rightarrow> error option \<times> state" where
  "seed cnfDir [] st = (None, st)"
| "seed cnfDir (name # names) st =
     (if \<not> isfile (files st) (cnfDir @ [name]) then
        (case copyfile (files st) (cwd st @ SAMPLE_PATH @ [name]) (cnfDir @ [name]) of
           Inl e \<Rightarrow> (Some e, st)
         | Inr fs' \<Rightarrow> seed cnfDir names (output_text (''Copying '' @ quoted name) (st\<lparr>files := fs'\<rparr>)))
      else seed cnfDir names (output_text (''Keeping '' @ quoted name) st))"

text \<open>
  Lines 131--141: install configuration files, if needed. Whatever is raised inside is
  dropped by the bare \<open>except\<close>.
\<close>

definition install_configuration :: "path \<Rightarrow> state \<Rightarrow> state" where
  "install_configuration cnfDir st =
     (case scandir (files st) (cwd st @ SAMPLE_PATH) of
        Inl e \<Rightarrow> st
      | Inr names \<Rightarrow> snd (seed cnfDir names st))"

text \<open>Lines 143--149: the success message and, unless this is an update, the shortcut hint.\<close>

definition display_messages :: "bool \<Rightarrow> path \<Rightarrow> state \<Rightarrow> state" where
  "display_messages simpleUpdate installDir st =
     (let apppath = path_str installDir @ ''/'' @ APP;
          st1 = output_text (SUCCESS_MESSAGE APPNAME apppath) st
      in if \<not> simpleUpdate then output_text (SHORTCUT_MESSAGE apppath) st1 else st1)"

text \<open>Lines 151--157: create a start-up script.\<close>

definition create_startup_script :: "path \<Rightarrow> state \<Rightarrow> error option \<times> state" where
  "create_startup_script installDir st =
     (let shebang = (if windows st then [] else ''#!/usr/bin/python3'' @ [nl]) in
      case write_file (files st) (installDir @ [START_UP_SCRIPT]) (shebang @ START_UP_CODE) of
        Inl e \<Rightarrow> (Some e, st)
      | Inr fs' \<Rightarrow> (None, st\<lparr>files := fs'\<rparr>))"

text \<open>
  Lines 105--157 of \<open>install\<close>, with the flag \<open>simpleUpdate\<close> of lines 99--102 as a
  parameter.
\<close>

definition install_from :: "bool \<Rightarrow> path \<Rightarrow> path \<Rightarrow> state \<Rightarrow> error option \<times> state" where
  "install_from simpleUpdate installDir cnfDir st =
     (case delete_old_version installDir st of
        (Some e, st1) \<Rightarrow> (Some e, st1)
      | (None, st1) \<Rightarrow>
          (case install_new_version installDir st1 of
             (Some e, st2) \<Rightarrow> (Some e, st2)
           | (None, st2) \<Rightarrow>
               create_startup_script installDir
                 (display_messages simpleUpdate installDir (install_configuration cnfDir st2))))"

text \<open>
  \<open>install\<close> (lines 92--157). The result is the exception that left the function, if
  any, with the state reached.
\<close>

definition install :: "path \<Rightarrow> state \<Rightarrow> error option \<times> state" where
  "install pywriterPath st =
     (case makedirs (files st) pywriterPath True of
        Inl e \<Rightarrow> (Some e, st)
      | Inr fs1 \<Rightarrow>
          let st1 = st\<lparr>files := fs1\<rparr>;
              installDir = pywriterPath @ [APPNAME];
              cnfDir = installDir @ INI_PATH;
              simpleUpdate = isfile (files st1) (installDir @ [APP])
          in (case makedirs (files st1) cnfDir True of
                Inl e \<Rightarrow> (Some e, st1)
              | Inr fs2 \<Rightarrow> install_from simpleUpdate installDir cnfDir (st1\<lparr>files := fs2\<rparr>)))"

text \<open>
  The main program (lines 160--180): change to the directory of the script, run
  \<open>install\<close> once inside the only \<open>try\<close>, and print the exception's string, if one
  arrives.
\<close>

definition main :: "path \<Rightarrow> path \<Rightarrow> state \<Rightarrow> state" where
  "main scriptDir homePath st0 =
     (let st = st0\<lparr>cwd := scriptDir\<rparr>;
          pywriterPath = homePath @ [''.pywriter'']
      in case install pywriterPath st of
           (None, st') \<Rightarrow> st'
         | (Some ex, st') \<Rightarrow> output_text (error_str ex) st')"

text \<open>
  The line the loop over the sample files reports for an entry: an existing file is kept,
  anything else is copied.
\<close>

definition seed_line :: "filesystem \<Rightarrow> path \<Rightarrow> string \<Rightarrow> string" where
  "seed_line fs cnfDir n = (if isfile fs (cnfDir @ [n]) then ''Keeping '' else ''Copying '') @ quoted n"

section \<open>Scenarios\<close>

text \<open>
  Concrete trees used to run the installer: the user's home is \<open>/home/u\<close>, the unpacked
  release lies in \<open>/b\<close>, which is also the working directory.
\<close>

definition home_u :: path where
  "home_u = [''home'', ''u'']"

definition bundle_dir :: path where
  "bundle_dir = [''b'']"

definition target :: path where
  "target = [''home'', ''u'', ''.pywriter'', ''yw_table'']"

definition bundle_files :: filesystem where
  "bundle_files =
     [([''b''], Dir),
      ([''b'', ''yw_table.py''], File ''program 0.5.1'' False),
      ([''b'', ''locale''], Dir),
      ([''b'', ''locale'', ''en.po''], File ''english'' False),
      ([''b'', ''sample''], Dir),
      ([''b'', ''sample'', ''yw_table.ini''], File ''defaults'' False)]"

text \<open>Nothing is installed yet; the directory \<open>.pywriter\<close> does not exist.\<close>

definition fresh_state :: state where
  "fresh_state =
     \<lparr>files = [([], Dir), ([''home''], Dir), ([''home'', ''u''], Dir)] @ bundle_files,
      cwd = [''b''], windows = False, message = []\<rparr>"

text \<open>
  An installation of an earlier release, with settings changed by the user, a module and
  a directory that the new release no longer has, and a release that brings a second
  sample file.
\<close>

definition update_state :: state where
  "update_state =
     \<lparr>files =
        [([], Dir), ([''home''], Dir), ([''home'', ''u''], Dir),
         ([''home'', ''u'', ''.pywriter''], Dir),
         ([''home'', ''u'', ''.pywriter'', ''yw_table''], Dir),
         ([''home'', ''u'', ''.pywriter'', ''yw_table'', ''yw_table.py''], File ''program 0.4.0'' True),
         ([''home'', ''u'', ''.pywriter'', ''yw_table'', ''locale''], Dir),
         ([''home'', ''u'', ''.pywriter'', ''yw_table'', ''locale'', ''de.po''], File ''german'' False),
         ([''home'', ''u'', ''.pywriter'', ''yw_table'', ''config''], Dir),
         ([''home'', ''u'', ''.pywriter'', ''yw_table'', ''config'', ''yw_table.ini''],
            File ''custom settings'' False),
         ([''home'', ''u'', ''.pywriter'', ''yw_table'', ''oldmodule.py''], File ''stale module'' False),
         ([''home'', ''u'', ''.pywriter'', ''yw_table'', ''plugins''], Dir),
         ([''home'', ''u'', ''.pywriter'', ''yw_table'', ''plugins'', ''old.py''],
            File ''stale plugin'' False),
         ([''home'', ''u'', ''.pywriter'', ''yw_table'', ''run.pyw''], File ''old launcher'' False)]
        @ bundle_files
        @ [([''b'', ''sample'', ''colors.ini''], File ''colours'' False)],
      cwd = [''b''], windows = False, message = []\<rparr>"

text \<open>The release lacks the program file and the sample directory.\<close>

definition no_program_state :: state where
  "no_program_state =
     \<lparr>files =
        [([], Dir), ([''home''], Dir), ([''home'', ''u''], Dir),
         ([''home'', ''u'', ''.pywriter''], Dir),
         ([''home'', ''u'', ''.pywriter'', ''yw_table''], Dir),
         ([''home'', ''u'', ''.pywriter'', ''yw_table'', ''config''], Dir),
         ([''home'', ''u'', ''.pywriter'', ''yw_table'', ''config'', ''yw_table.ini''],
            File ''custom settings'' False),
         ([''b''], Dir),
         ([''b'', ''locale''], Dir),
         ([''b'', ''locale'', ''en.po''], File ''english'' False)],
      cwd = [''b''], windows = False, message = []\<rparr>"

text \<open>The sample directory of the release holds a directory between two files.\<close>

definition nested_sample_state :: state where
  "nested_sample_state =
     \<lparr>files =
        [([], Dir), ([''home''], Dir), ([''home'', ''u''], Dir),
         ([''home'', ''u'', ''.pywriter''], Dir),
         ([''home'', ''u'', ''.pywriter'', ''yw_table''], Dir),
         ([''home'', ''u'', ''.pywriter'', ''yw_table'', ''config''], Dir),
         ([''b''], Dir),
         ([''b'', ''yw_table.py''], File ''program 0.5.1'' False),
         ([''b'', ''locale''], Dir),
         ([''b'', ''locale'', ''en.po''], File ''english'' False),
         ([''b'', ''sample''], Dir),
         ([''b'', ''sample'', ''colors.ini''], File ''colours'' False),
         ([''b'', ''sample'', ''themes''], Dir),
         ([''b'', ''sample'', ''themes'', ''dark.ini''], File ''dark'' False),
         ([''b'', ''sample'', ''yw_table.ini''], File ''defaults'' False)],
      cwd = [''b''], windows = False, message = []\<rparr>"


section \<open>Properties of the library calls\<close>

lemma set_tl_prefixes: "set (tl (prefixes p)) = {q. q \<noteq> [] \<and> prefix q p}"
  by (cases p) (auto simp: prefix_Cons)

lemma map_of_dirs: "map_of (map (\<lambda>q. (q, Dir)) qs) q = (if q \<in> set qs then Some Dir else None)"
  by (induction qs) auto

lemma makedirs_lookup:
  assumes "makedirs fs p ok = Inr fs'"
  shows "map_of fs' q = (if map_of fs q = None \<and> q \<noteq> [] \<and> prefix q p then Some Dir else map_of fs q)"
  using assms
  by (auto simp: makedirs_def map_of_dirs set_tl_prefixes map_add_def
      split: list.splits if_splits option.splits)

lemma makedirs_keeps:
  "makedirs fs p ok = Inr fs' \<Longrightarrow> map_of fs q = Some e \<Longrightarrow> map_of fs' q = Some e"
  by (simp add: makedirs_lookup)

lemma makedirs_isfile: "makedirs fs p ok = Inr fs' \<Longrightarrow> isfile fs' q = isfile fs q"
  by (simp add: isfile_def makedirs_lookup)

lemma makedirs_no_file:
  assumes "makedirs fs p ok = Inr fs'" "q \<noteq> []" "prefix q p"
  shows "\<not> isfile fs q"
proof
  assume "isfile fs q"
  with assms(2,3) have "q \<in> set (filter (isfile fs) (tl (prefixes p)))"
    by (simp add: set_tl_prefixes)
  then have "filter (isfile fs) (tl (prefixes p)) \<noteq> []"
    by (metis empty_iff list.set(1))
  with assms(1) show False
    by (auto simp: makedirs_def split: list.splits)
qed

lemma makedirs_isdir:
  assumes "makedirs fs p ok = Inr fs'" "q \<noteq> []" "prefix q p"
  shows "isdir fs' q"
  using makedirs_no_file[OF assms] assms
  by (auto simp: isdir_def isfile_def makedirs_lookup split: option.splits entry.splits)

lemma map_of_filter_key:
  "map_of (filter (\<lambda>(q, e). P q) fs) q = (if P q then map_of fs q else None)"
  by (induction fs) auto

lemma rmtree_lookup:
  "map_of (rmtree fs p) q = (if isdir fs p \<and> prefix p q then None else map_of fs q)"
  by (simp add: rmtree_def map_of_filter_key)

lemma remove_lookup:
  "remove fs p = Inr fs' \<Longrightarrow> map_of fs' q = (if q = p then None else map_of fs q)"
  by (auto simp: remove_def delete_conv' split: option.splits entry.splits)

lemma write_file_other:
  "write_file fs p d = Inr fs' \<Longrightarrow> q \<noteq> p \<Longrightarrow> map_of fs' q = map_of fs q"
  by (auto simp: write_file_def update_conv' split: option.splits entry.splits if_splits)

lemma write_file_at:
  "write_file fs p d = Inr fs' \<Longrightarrow> \<exists>x. map_of fs' p = Some (File d x)"
  by (auto simp: write_file_def update_conv' split: option.splits entry.splits if_splits)

lemma copyfile_other:
  "copyfile fs src dst = Inr fs' \<Longrightarrow> q \<noteq> dst \<Longrightarrow> map_of fs' q = map_of fs q"
  by (auto simp: copyfile_def write_file_other split: option.splits entry.splits if_splits)

lemma copyfile_at:
  "copyfile fs src dst = Inr fs' \<Longrightarrow>
     \<exists>c x y. map_of fs src = Some (File c x) \<and> map_of fs' dst = Some (File c y)"
  by (auto simp: copyfile_def split: option.splits entry.splits if_splits dest: write_file_at)

lemma copytree_keeps:
  "copytree fs src dst = Inr fs' \<Longrightarrow> map_of fs q = Some e \<Longrightarrow> map_of fs' q = Some e"
  by (auto simp: copytree_def map_add_def makedirs_keeps
      split: option.splits entry.splits sum.splits if_splits)

lemma add_exec_bit_other:
  "add_exec_bit fs p = Inr fs' \<Longrightarrow> q \<noteq> p \<Longrightarrow> map_of fs' q = map_of fs q"
  by (auto simp: add_exec_bit_def update_conv' split: option.splits entry.splits)

section \<open>Steps of the installer and the configuration directory\<close>

lemma prefix_snoc_same: "prefix (d @ [a]) q \<Longrightarrow> prefix (d @ [b]) q \<Longrightarrow> a = b"
  by (auto simp: prefix_def append_eq_append_conv2 Cons_eq_append_conv)

lemma prefix_snoc_snoc [simp]: "prefix (d @ [a]) (d @ [b]) \<longleftrightarrow> a = b"
  by (auto simp: prefix_def)

lemma output_text_simps [simp]:
  "files (output_text t st) = files st"
  "cwd (output_text t st) = cwd st"
  "windows (output_text t st) = windows st"
  "message (output_text t st) = message st @ [t]"
  by (simp_all add: output_text_def)

lemma purge_other:
  assumes "\<And>name. \<not> sublist ''config'' name \<Longrightarrow> q \<noteq> installDir @ [name]"
  shows "map_of (files (purge installDir names st)) q = map_of (files st) q"
  using assms
  by (induction names arbitrary: st) (auto simp: remove_lookup split: sum.splits)

lemma purge_env [simp]:
  "cwd (purge installDir names st) = cwd st"
  "windows (purge installDir names st) = windows st"
  by (induction names arbitrary: st) (auto split: sum.splits)

lemma delete_old_version_config:
  assumes "prefix (installDir @ [''config'']) q"
  shows "map_of (files (snd (delete_old_version installDir st))) q = map_of (files st) q"
proof -
  have a: "\<not> prefix (installDir @ [''locale'']) q"
    using assms prefix_snoc_same[of installDir "''locale''" q "''config''"] by auto
  have b: "q \<noteq> installDir @ [name]" if "\<not> sublist ''config'' name" for name
    using assms that by auto
  show ?thesis
    using a purge_other[of q installDir, OF b]
    by (auto simp: delete_old_version_def Let_def rmtree_lookup split: sum.splits)
qed

lemma install_new_version_config:
  assumes "prefix (installDir @ [''config'']) q" "map_of (files st) q = Some e"
  shows "map_of (files (snd (install_new_version installDir st))) q = Some e"
proof -
  have ne: "q \<noteq> installDir @ [APP]"
    using assms(1) by (auto simp: APP_def APPNAME_def)
  show ?thesis
  proof (cases "copyfile (files st) (cwd st @ [APP]) (installDir @ [APP])")
    case (Inl e1)
    then show ?thesis using assms(2) by (simp add: install_new_version_def)
  next
    case (Inr fs1)
    then have k1: "map_of fs1 q = Some e"
      using assms(2) ne by (simp add: copyfile_other)
    show ?thesis
    proof (cases "copytree fs1 (cwd st @ [''locale'']) (installDir @ [''locale''])")
      case (Inl e2)
      then show ?thesis using Inr k1 by (simp add: install_new_version_def)
    next
      case (Inr fs2)
      then have k2: "map_of fs2 q = Some e"
        using k1 by (simp add: copytree_keeps)
      show ?thesis
      proof (cases "add_exec_bit fs2 (installDir @ [APP])")
        case (Inl e3)
        then show ?thesis
          using \<open>copyfile _ _ _ = Inr fs1\<close> Inr k2 by (simp add: install_new_version_def)
      next
        case (Inr fs3)
        then have "map_of fs3 q = Some e"
          using k2 ne by (simp add: add_exec_bit_other)
        then show ?thesis
          using \<open>copyfile _ _ _ = Inr fs1\<close> \<open>copytree _ _ _ = Inr fs2\<close> Inr
          by (simp add: install_new_version_def)
      qed
    qed
  qed
qed

lemma seed_keeps_file:
  "map_of (files st) q = Some (File c x) \<Longrightarrow>
     map_of (files (snd (seed cnfDir names st))) q = Some (File c x)"
proof (induction names arbitrary: st)
  case Nil
  then show ?case by simp
next
  case (Cons name names)
  show ?case
  proof (cases "isfile (files st) (cnfDir @ [name])")
    case True
    then show ?thesis using Cons by simp
  next
    case False
    with Cons.prems have ne: "q \<noteq> cnfDir @ [name]"
      by (auto simp: isfile_def)
    show ?thesis
      using False Cons ne by (auto simp: copyfile_other split: sum.splits)
  qed
qed

lemma install_configuration_keeps_file:
  "map_of (files st) q = Some (File c x) \<Longrightarrow>
     map_of (files (install_configuration cnfDir st)) q = Some (File c x)"
  by (auto simp: install_configuration_def seed_keeps_file split: sum.splits)

lemma display_messages_files [simp]:
  "files (display_messages u installDir st) = files st"
  "cwd (display_messages u installDir st) = cwd st"
  "windows (display_messages u installDir st) = windows st"
  by (simp_all add: display_messages_def Let_def)

lemma create_startup_script_other:
  "q \<noteq> installDir @ [START_UP_SCRIPT] \<Longrightarrow>
     map_of (files (snd (create_startup_script installDir st))) q = map_of (files st) q"
  by (auto simp: create_startup_script_def Let_def write_file_other split: sum.splits)

lemma install_from_config:
  assumes "prefix (installDir @ [''config'']) q" "map_of (files st) q = Some (File c x)"
  shows "map_of (files (snd (install_from u installDir cnfDir st))) q = Some (File c x)"
proof -
  obtain r1 st1 where d: "delete_old_version installDir st = (r1, st1)"
    by (cases "delete_old_version installDir st")
  have k1: "map_of (files st1) q = Some (File c x)"
    using delete_old_version_config[OF assms(1), of st] assms(2) d by simp
  obtain r2 st2 where n: "install_new_version installDir st1 = (r2, st2)"
    by (cases "install_new_version installDir st1")
  have k2: "map_of (files st2) q = Some (File c x)"
    using install_new_version_config[OF assms(1) k1] n by simp
  have ne: "q \<noteq> installDir @ [START_UP_SCRIPT]"
    using assms(1) by (auto simp: START_UP_SCRIPT_def)
  have k3: "map_of (files (snd (create_startup_script installDir
              (display_messages u installDir (install_configuration cnfDir st2))))) q
            = Some (File c x)"
    using install_configuration_keeps_file[OF k2] by (simp add: create_startup_script_other[OF ne])
  show ?thesis
    using d n k1 k2 k3 by (auto simp: install_from_def split: option.splits)
qed

lemma install_config:
  assumes "prefix (pywriterPath @ [APPNAME] @ INI_PATH) q" "map_of (files st) q = Some (File c x)"
  shows "map_of (files (snd (install pywriterPath st))) q = Some (File c x)"
proof -
  have p: "prefix ((pywriterPath @ [APPNAME]) @ [''config'']) q"
    using assms(1) by (simp add: INI_PATH_def)
  show ?thesis
  proof (cases "makedirs (files st) pywriterPath True")
    case (Inl e)
    then show ?thesis using assms(2) by (simp add: install_def)
  next
    case (Inr fs1)
    then have k1: "map_of fs1 q = Some (File c x)"
      using assms(2) by (simp add: makedirs_keeps)
    show ?thesis
    proof (cases "makedirs fs1 (pywriterPath @ [APPNAME] @ INI_PATH) True")
      case (Inl e)
      then show ?thesis using Inr k1 by (simp add: install_def)
    next
      case fs2: (Inr fs2)
      then have k2: "map_of fs2 q = Some (File c x)"
        using k1 by (simp add: makedirs_keeps)
      show ?thesis
        using Inr fs2 install_from_config[OF p, of "st\<lparr>files := fs2\<rparr>" c x] k2
        by (simp add: install_def)
    qed
  qed
qed

section \<open>Configuration is preserved\<close>

text \<open>
  Claim C1 (config preservation). Every regular file that exists at or below the
  configuration directory \<open>{installDir}/config\<close> before a run of the main program exists
  after the run with the same content and mode, whether \<open>install\<close> returns or raises
  into the handler.
\<close>

theorem config_preservation:
  assumes "prefix (homePath @ [''.pywriter''] @ [APPNAME] @ INI_PATH) q"
    and "map_of (files st0) q = Some (File c x)"
  shows "map_of (files (main scriptDir homePath st0)) q = Some (File c x)"
proof -
  have "map_of (files (snd (install (homePath @ [''.pywriter'']) (st0\<lparr>cwd := scriptDir\<rparr>)))) q
        = Some (File c x)"
    using assms by (intro install_config) simp_all
  then show ?thesis
    by (auto simp: main_def Let_def split: prod.splits option.splits)
qed

theorem config_preservation_witness:
  "prefix (home_u @ [''.pywriter''] @ [APPNAME] @ INI_PATH) (target @ [''config'', ''yw_table.ini''])
   \<and> map_of (files update_state) (target @ [''config'', ''yw_table.ini''])
       = Some (File ''custom settings'' False)
   \<and> map_of (files (main bundle_dir home_u update_state)) (target @ [''config'', ''yw_table.ini''])
       = Some (File ''custom settings'' False)"
proof -
  have h1: "prefix (home_u @ [''.pywriter''] @ [APPNAME] @ INI_PATH)
              (target @ [''config'', ''yw_table.ini''])"
    by (simp add: home_u_def target_def APPNAME_def INI_PATH_def)
  have h2: "map_of (files update_state) (target @ [''config'', ''yw_table.ini''])
              = Some (File ''custom settings'' False)"
    by (simp add: update_state_def target_def bundle_files_def)
  show ?thesis
    using h1 h2 config_preservation [OF h1 h2, of bundle_dir] by simp
qed

lemma isfile_iff: "isfile fs p \<longleftrightarrow> (\<exists>c x. map_of fs p = Some (File c x))"
  by (auto simp: isfile_def split: option.splits entry.splits)

lemma isdir_iff: "isdir fs p \<longleftrightarrow> map_of fs p = Some Dir"
  by (auto simp: isdir_def split: option.splits entry.splits)

lemma remove_Inr_iff: "(\<exists>fs'. remove fs p = Inr fs') \<longleftrightarrow> isfile fs p"
  by (auto simp: remove_def isfile_iff split: option.splits entry.splits)

lemma remove_Inl_iff: "(\<exists>e. remove fs p = Inl e) \<longleftrightarrow> \<not> isfile fs p"
  by (auto simp: remove_def isfile_iff split: option.splits entry.splits)

lemma purge_lookup:
  "map_of (files (purge d names st)) q =
     (if \<exists>n\<in>set names. q = d @ [n] \<and> \<not> sublist ''config'' n \<and> isfile (files st) q
      then None else map_of (files st) q)"
proof (induction names arbitrary: st)
  case Nil
  then show ?case by simp
next
  case (Cons name names)
  show ?case
  proof (cases "\<not> sublist ''config'' name \<and> isfile (files st) (d @ [name])")
    case True
    then obtain fs' where r: "remove (files st) (d @ [name]) = Inr fs'"
      using remove_Inr_iff by blast
    have l: "map_of fs' q' = (if q' = d @ [name] then None else map_of (files st) q')" for q'
      using remove_lookup[OF r] by simp
    have f: "isfile fs' q' \<longleftrightarrow> q' \<noteq> d @ [name] \<and> isfile (files st) q'" for q'
      by (auto simp: isfile_iff l)
    show ?thesis
      using True r by (auto simp: Cons.IH l f)
  next
    case False
    then have "purge d (name # names) st = purge d names st"
      using remove_Inl_iff[of "files st" "d @ [name]"] by (auto split: sum.splits)
    then show ?thesis
      using False by (auto simp: Cons.IH)
  qed
qed

lemma purge_message:
  "distinct names \<Longrightarrow>
   message (purge d names st) =
     message st @ map (\<lambda>n. ''Removing '' @ quoted n)
       (filter (\<lambda>n. \<not> sublist ''config'' n \<and> isfile (files st) (d @ [n])) names)"
proof (induction names arbitrary: st)
  case Nil
  then show ?case by simp
next
  case (Cons name names)
  then have d: "distinct names" and nin: "name \<notin> set names" by auto
  show ?case
  proof (cases "\<not> sublist ''config'' name \<and> isfile (files st) (d @ [name])")
    case True
    then obtain fs' where r: "remove (files st) (d @ [name]) = Inr fs'"
      using remove_Inr_iff by blast
    have f: "isfile fs' (d @ [n]) \<longleftrightarrow> isfile (files st) (d @ [n])" if "n \<in> set names" for n
      using that nin remove_lookup[OF r, of "d @ [n]"] by (auto simp: isfile_iff)
    have "filter (\<lambda>n. \<not> sublist ''config'' n \<and> isfile fs' (d @ [n])) names
          = filter (\<lambda>n. \<not> sublist ''config'' n \<and> isfile (files st) (d @ [n])) names"
      by (rule filter_cong) (auto simp: f)
    then show ?thesis
      using True r by (simp add: Cons.IH[OF d])
  next
    case False
    then have "purge d (name # names) st = purge d names st"
      using remove_Inl_iff[of "files st" "d @ [name]"] by (auto split: sum.splits)
    then show ?thesis
      using False by (auto simp: Cons.IH[OF d])
  qed
qed

lemma map_of_eq_None_iff': "map_of fs k \<noteq> None \<longleftrightarrow> k \<in> fst ` set fs"
  by (simp add: map_of_eq_None_iff)

lemma scandir_names:
  assumes "scandir fs d = Inr names"
  shows "set names = {n. map_of fs (d @ [n]) \<noteq> None}" and "distinct names" and "isdir fs d"
proof -
  from assms have n: "names = remdups (map (\<lambda>(q, e). last q) (filter (\<lambda>(q, e). q \<noteq> [] \<and> butlast q = d) fs))"
    and dir: "map_of fs d = Some Dir"
    by (auto simp: scandir_def split: option.splits entry.splits)
  show "distinct names" by (simp add: n)
  show "isdir fs d" by (simp add: isdir_iff dir)
  have split: "q \<noteq> [] \<and> butlast q = d \<longleftrightarrow> q = d @ [last q]" for q :: path
    by (metis append_butlast_last_id butlast_snoc snoc_eq_iff_butlast)
  show "set names = {n. map_of fs (d @ [n]) \<noteq> None}"
  proof (intro set_eqI iffI)
    fix x assume "x \<in> set names"
    then obtain q e where "(q, e) \<in> set fs" "q \<noteq> [] \<and> butlast q = d" "x = last q"
      by (auto simp: n)
    then have "(d @ [x], e) \<in> set fs" using split by metis
    then show "x \<in> {n. map_of fs (d @ [n]) \<noteq> None}"
      using weak_map_of_SomeI by fastforce
  next
    fix x assume "x \<in> {n. map_of fs (d @ [n]) \<noteq> None}"
    then obtain e where "(d @ [x], e) \<in> set fs"
      by (auto dest: map_of_SomeD)
    then show "x \<in> set names"
      by (force simp: n image_iff)
  qed
qed

lemma scandir_Inr_iff: "(\<exists>names. scandir fs d = Inr names) \<longleftrightarrow> isdir fs d"
  by (auto simp: scandir_def isdir_iff split: option.splits entry.splits)

lemma not_prefix_snoc_self [simp]: "\<not> prefix (d @ [a]) d"
  by (auto simp: prefix_def)

lemma rmtree_isfile:
  "isfile (rmtree fs p) q \<longleftrightarrow> \<not> (isdir fs p \<and> prefix p q) \<and> isfile fs q"
  by (auto simp: isfile_iff rmtree_lookup)

lemma delete_old_version_lookup:
  assumes "isdir (files st) d"
  shows "fst (delete_old_version d st) = None"
    and "map_of (files (snd (delete_old_version d st))) q =
      (if isdir (files st) (d @ [''locale'']) \<and> prefix (d @ [''locale'']) q then None
       else if \<exists>n. q = d @ [n] \<and> \<not> sublist ''config'' n \<and> isfile (files st) q then None
       else map_of (files st) q)"
proof -
  let ?fs1 = "rmtree (files st) (d @ [''locale''])"
  define st1 where "st1 = st\<lparr>files := ?fs1\<rparr>"
  have f1: "files st1 = ?fs1"
    by (simp add: st1_def)
  have "isdir ?fs1 d"
    using assms by (simp add: isdir_iff rmtree_lookup)
  then obtain names where sc: "scandir ?fs1 d = Inr names"
    using scandir_Inr_iff by blast
  have res: "delete_old_version d st = (None, purge d names st1)"
    using sc by (simp add: delete_old_version_def Let_def st1_def)
  show "fst (delete_old_version d st) = None"
    by (simp add: res)
  have ex: "(\<exists>n\<in>set names. q = d @ [n] \<and> \<not> sublist ''config'' n \<and> isfile ?fs1 q)
        \<longleftrightarrow> (\<exists>n. q = d @ [n] \<and> \<not> sublist ''config'' n \<and> isfile ?fs1 q)"
    using scandir_names(1)[OF sc] by (auto simp: isfile_iff)
  have "map_of (files (snd (delete_old_version d st))) q =
       (if \<exists>n\<in>set names. q = d @ [n] \<and> \<not> sublist ''config'' n \<and> isfile ?fs1 q
        then None else map_of ?fs1 q)"
    unfolding res snd_conv purge_lookup f1 by (rule refl)
  also have "\<dots> = (if \<exists>n. q = d @ [n] \<and> \<not> sublist ''config'' n \<and> isfile ?fs1 q
        then None else map_of ?fs1 q)"
    by (simp only: ex)
  also have "\<dots> = (if isdir (files st) (d @ [''locale'']) \<and> prefix (d @ [''locale'']) q then None
       else if \<exists>n. q = d @ [n] \<and> \<not> sublist ''config'' n \<and> isfile (files st) q then None
       else map_of (files st) q)"
    by (auto simp: rmtree_isfile rmtree_lookup)
  finally show "map_of (files (snd (delete_old_version d st))) q =
      (if isdir (files st) (d @ [''locale'']) \<and> prefix (d @ [''locale'']) q then None
       else if \<exists>n. q = d @ [n] \<and> \<not> sublist ''config'' n \<and> isfile (files st) q then None
       else map_of (files st) q)" .
qed

lemma delete_old_version_message:
  assumes "scandir (rmtree (files st) (d @ [''locale''])) d = Inr names"
  shows "message (snd (delete_old_version d st)) =
     message st @ map (\<lambda>n. ''Removing '' @ quoted n)
       (filter (\<lambda>n. \<not> sublist ''config'' n \<and> isfile (files st) (d @ [n])) names)"
proof -
  let ?fs1 = "rmtree (files st) (d @ [''locale''])"
  have res: "delete_old_version d st = (None, purge d names (st\<lparr>files := ?fs1\<rparr>))"
    using assms by (simp add: delete_old_version_def Let_def)
  have f: "isfile ?fs1 (d @ [n]) \<longleftrightarrow> isfile (files st) (d @ [n])" if "n \<in> set names" for n
  proof (cases "isdir (files st) (d @ [''locale'']) \<and> n = ''locale''")
    case True
    then have "map_of ?fs1 (d @ [n]) = None" by (simp add: rmtree_lookup)
    then have False using that scandir_names(1)[OF assms] by simp
    then show ?thesis ..
  next
    case False
    then show ?thesis by (auto simp: rmtree_isfile)
  qed
  have "filter (\<lambda>n. \<not> sublist ''config'' n \<and> isfile ?fs1 (d @ [n])) names
      = filter (\<lambda>n. \<not> sublist ''config'' n \<and> isfile (files st) (d @ [n])) names"
    by (rule filter_cong) (auto simp: f)
  then show ?thesis
    unfolding res snd_conv
    by (simp add: purge_message[OF scandir_names(2)[OF assms]])
qed

section \<open>The purge\<close>

text \<open>
  Claim C7 (stale-file purge steps). Run on a state in which the installation directory
  is a directory (as it is after \<open>os.makedirs(cnfDir)\<close>), lines 105--114 never raise. They
  delete everything at or below \<open>{installDir}/locale\<close> when that is a directory and do
  nothing to it otherwise; of the direct entries they remove exactly the regular files
  whose name does not contain \<open>config\<close>, and leave every other entry as it was, so a
  removal that raises stops neither the loop nor the run. The trace gains one
  \<open>Removing\<close> line for each removed entry, in the order of the listing.
\<close>

theorem stale_file_purge:
  assumes "isdir (files st) installDir"
  shows "fst (delete_old_version installDir st) = None
    \<and> (\<forall>q. map_of (files (snd (delete_old_version installDir st))) q =
          (if isdir (files st) (installDir @ [''locale'']) \<and> prefix (installDir @ [''locale'']) q
           then None
           else if \<exists>n. q = installDir @ [n] \<and> \<not> sublist ''config'' n \<and> isfile (files st) q
           then None
           else map_of (files st) q))
    \<and> (\<exists>names. scandir (rmtree (files st) (installDir @ [''locale''])) installDir = Inr names
          \<and> message (snd (delete_old_version installDir st)) =
              message st @ map (\<lambda>n. ''Removing '' @ quoted n)
                (filter (\<lambda>n. \<not> sublist ''config'' n \<and> isfile (files st) (installDir @ [n])) names))"
proof -
  have "isdir (rmtree (files st) (installDir @ [''locale''])) installDir"
    using assms by (simp add: isdir_iff rmtree_lookup)
  then obtain names where sc: "scandir (rmtree (files st) (installDir @ [''locale''])) installDir = Inr names"
    using scandir_Inr_iff by blast
  have a: "fst (delete_old_version installDir st) = None"
    by (rule delete_old_version_lookup(1)[OF assms])
  have b: "\<forall>q. map_of (files (snd (delete_old_version installDir st))) q =
          (if isdir (files st) (installDir @ [''locale'']) \<and> prefix (installDir @ [''locale'']) q
           then None
           else if \<exists>n. q = installDir @ [n] \<and> \<not> sublist ''config'' n \<and> isfile (files st) q
           then None
           else map_of (files st) q)"
    using delete_old_version_lookup(2)[OF assms] by blast
  show ?thesis
    apply (intro conjI)
      apply (rule a)
     apply (rule b)
    apply (rule exI[of _ names])
    apply (rule conjI[OF sc])
    apply (rule delete_old_version_message[OF sc])
    done
qed

theorem stale_file_purge_witness:
  "isdir (files update_state) target
   \<and> fst (delete_old_version target update_state) = None
   \<and> map_of (files (snd (delete_old_version target update_state))) (target @ [''locale'', ''de.po'']) = None
   \<and> map_of (files (snd (delete_old_version target update_state))) (target @ [''oldmodule.py'']) = None
   \<and> map_of (files (snd (delete_old_version target update_state))) (target @ [''plugins'']) = Some Dir
   \<and> map_of (files (snd (delete_old_version target update_state))) (target @ [''config'', ''yw_table.ini''])
       = Some (File ''custom settings'' False)"
proof -
  have h: "isdir (files update_state) target"
    by code_simp
  note t = stale_file_purge [OF h]
  have loc: "isdir (files update_state) (target @ [''locale''])"
    by code_simp
  have old: "isfile (files update_state) (target @ [''oldmodule.py''])"
    and nc: "\<not> sublist ''config'' ''oldmodule.py''"
    and np: "\<not> sublist ''config'' ''plugins''"
    and nfp: "\<not> isfile (files update_state) (target @ [''plugins''])"
    and plug: "map_of (files update_state) (target @ [''plugins'']) = Some Dir"
    and cfg: "map_of (files update_state) (target @ [''config'', ''yw_table.ini''])
       = Some (File ''custom settings'' False)"
    by code_simp+
  from t have q: "map_of (files (snd (delete_old_version target update_state))) q =
          (if isdir (files update_state) (target @ [''locale'']) \<and> prefix (target @ [''locale'']) q
           then None
           else if \<exists>n. q = target @ [n] \<and> \<not> sublist ''config'' n \<and> isfile (files update_state) q
           then None
           else map_of (files update_state) q)" for q
    by blast
  have a: "map_of (files (snd (delete_old_version target update_state))) (target @ [''locale'', ''de.po'']) = None"
    using loc by (simp add: q)
  have b: "map_of (files (snd (delete_old_version target update_state))) (target @ [''oldmodule.py'']) = None"
    using old nc by (simp add: q)
  have c: "map_of (files (snd (delete_old_version target update_state))) (target @ [''plugins'']) = Some Dir"
    using nfp plug by (simp add: q)
  have d: "map_of (files (snd (delete_old_version target update_state))) (target @ [''config'', ''yw_table.ini''])
       = Some (File ''custom settings'' False)"
    using cfg by (simp add: q)
  show ?thesis
    using h t a b c d by blast
qed

text \<open>
  Claim C9 (directories survive the purge). For a direct entry of the installation
  directory that is a directory and is not named \<open>locale\<close>, \<open>os.remove\<close> raises
  \<open>IsADirectoryError\<close>, and after lines 105--114 the directory and everything below it
  are as before. This covers the configuration directory.
\<close>

theorem purge_keeps_directories:
  assumes "map_of (files st) (installDir @ [name]) = Some Dir"
    and "name \<noteq> ''locale''"
    and "prefix (installDir @ [name]) q"
  shows "remove (files st) (installDir @ [name]) = Inl (IsADirectoryError (installDir @ [name]))
    \<and> map_of (files (snd (delete_old_version installDir st))) q = map_of (files st) q"
proof -
  let ?fs1 = "rmtree (files st) (installDir @ [''locale''])"
  have np: "\<not> prefix (installDir @ [''locale'']) q"
    using assms(2,3) prefix_snoc_same[of installDir "''locale''" q name] by auto
  then have l1: "map_of ?fs1 q = map_of (files st) q"
    by (simp add: rmtree_lookup)
  have nf: "\<not> isfile ?fs1 q" if "q = installDir @ [n]" for n
  proof -
    from that assms(3) have "n = name" by simp
    with that assms(1) l1 show ?thesis by (simp add: isfile_iff)
  qed
  have "map_of (files (snd (delete_old_version installDir st))) q = map_of ?fs1 q"
  proof (cases "scandir ?fs1 installDir")
    case (Inl e)
    then show ?thesis by (simp add: delete_old_version_def Let_def)
  next
    case (Inr names)
    then have "delete_old_version installDir st = (None, purge installDir names (st\<lparr>files := ?fs1\<rparr>))"
      by (simp add: delete_old_version_def Let_def)
    then show ?thesis
      using nf by (auto simp: purge_lookup)
  qed
  with l1 show ?thesis
    using assms(1) by (simp add: remove_def)
qed

theorem purge_keeps_directories_witness:
  "map_of (files update_state) (target @ [''plugins'']) = Some Dir
   \<and> remove (files update_state) (target @ [''plugins'']) = Inl (IsADirectoryError (target @ [''plugins'']))
   \<and> map_of (files (snd (delete_old_version target update_state))) (target @ [''plugins'', ''old.py''])
       = Some (File ''stale plugin'' False)
   \<and> map_of (files (snd (delete_old_version target update_state))) (target @ [''config'']) = Some Dir"
proof -
  have h1: "map_of (files update_state) (target @ [''plugins'']) = Some Dir"
    and h2: "map_of (files update_state) (target @ [''config'']) = Some Dir"
    and v: "map_of (files update_state) (target @ [''plugins'', ''old.py'']) = Some (File ''stale plugin'' False)"
    by code_simp+
  have n1: "''plugins'' \<noteq> ''locale''" and n2: "''config'' \<noteq> ''locale''"
    by simp_all
  have p1: "prefix (target @ [''plugins'']) (target @ [''plugins'', ''old.py''])"
    and p2: "prefix (target @ [''config'']) (target @ [''config''])"
    by simp_all
  show ?thesis
    using purge_keeps_directories [OF h1 n1 p1] purge_keeps_directories [OF h2 n2 p2] h1 h2 v
    by simp
qed

lemma delete_old_version_only_deletes:
  assumes "map_of (files (snd (delete_old_version d st))) q = Some e"
  shows "map_of (files st) q = Some e"
proof -
  let ?fs1 = "rmtree (files st) (d @ [''locale''])"
  have a: "map_of ?fs1 q = Some e \<Longrightarrow> map_of (files st) q = Some e"
    by (simp add: rmtree_lookup split: if_splits)
  show ?thesis
  proof (cases "scandir ?fs1 d")
    case (Inl err)
    then show ?thesis using assms a by (simp add: delete_old_version_def Let_def)
  next
    case (Inr names)
    define st1 where "st1 = st\<lparr>files := ?fs1\<rparr>"
    have f1: "files st1 = ?fs1" by (simp add: st1_def)
    have "delete_old_version d st = (None, purge d names st1)"
      using Inr by (simp add: delete_old_version_def Let_def st1_def)
    then have "map_of (files (purge d names st1)) q = Some e"
      using assms by simp
    then have "map_of ?fs1 q = Some e"
      unfolding purge_lookup f1 by (simp split: if_splits)
    then show ?thesis by (rule a)
  qed
qed

lemma delete_old_version_env [simp]:
  "cwd (snd (delete_old_version d st)) = cwd st"
  "windows (snd (delete_old_version d st)) = windows st"
  by (auto simp: delete_old_version_def Let_def split: sum.splits)

lemma copytree_result:
  assumes "copytree fs src dst = Inr fs'"
  shows "\<exists>fs1. makedirs fs dst False = Inr fs1 \<and> map_of fs src = Some Dir \<and> \<not> prefix src dst
    \<and> fs' = fs1 @ map (\<lambda>(q, e). (dst @ drop (length src) q, e))
                        (filter (\<lambda>(q, e). strict_prefix src q) fs)"
  using assms
  by (auto simp: copytree_def split: option.splits entry.splits sum.splits if_splits)

lemma copytree_frame:
  assumes "copytree fs src dst = Inr fs'" "\<not> prefix q dst" "\<not> prefix dst q"
  shows "map_of fs' q = map_of fs q"
proof -
  define copies where "copies = map (\<lambda>(q, e). (dst @ drop (length src) q, e))
                        (filter (\<lambda>(q, e). strict_prefix src q) fs)"
  from copytree_result[OF assms(1)] obtain fs1 where m: "makedirs fs dst False = Inr fs1"
    and r: "fs' = fs1 @ copies"
    unfolding copies_def by blast
  have "q \<notin> fst ` set copies"
    using assms(3) by (auto simp: image_iff copies_def)
  then have "map_of copies q = None"
    by (simp add: map_of_eq_None_iff)
  then have "map_of fs' q = map_of fs1 q"
    by (simp add: r map_add_def split: option.splits)
  also have "\<dots> = map_of fs q"
    using assms(2) by (simp add: makedirs_lookup[OF m])
  finally show ?thesis .
qed

lemma install_new_version_frame:
  assumes "q \<noteq> d @ [APP]" "\<not> prefix q (d @ [''locale''])" "\<not> prefix (d @ [''locale'']) q"
  shows "map_of (files (snd (install_new_version d st))) q = map_of (files st) q"
proof (cases "copyfile (files st) (cwd st @ [APP]) (d @ [APP])")
  case (Inl e1)
  then show ?thesis by (simp add: install_new_version_def)
next
  case (Inr fs1)
  then have k1: "map_of fs1 q = map_of (files st) q"
    using assms(1) by (simp add: copyfile_other)
  show ?thesis
  proof (cases "copytree fs1 (cwd st @ [''locale'']) (d @ [''locale''])")
    case (Inl e2)
    then show ?thesis using Inr k1 by (simp add: install_new_version_def)
  next
    case (Inr fs2)
    then have k2: "map_of fs2 q = map_of (files st) q"
      using k1 assms(2,3) by (simp add: copytree_frame)
    show ?thesis
    proof (cases "add_exec_bit fs2 (d @ [APP])")
      case (Inl e3)
      then show ?thesis
        using \<open>copyfile _ _ _ = Inr fs1\<close> Inr k2 by (simp add: install_new_version_def)
    next
      case (Inr fs3)
      then have "map_of fs3 q = map_of (files st) q"
        using k2 assms(1) by (simp add: add_exec_bit_other)
      then show ?thesis
        using \<open>copyfile _ _ _ = Inr fs1\<close> \<open>copytree _ _ _ = Inr fs2\<close> Inr
        by (simp add: install_new_version_def)
    qed
  qed
qed

lemma install_new_version_env [simp]:
  "cwd (snd (install_new_version d st)) = cwd st"
  "windows (snd (install_new_version d st)) = windows st"
  by (auto simp: install_new_version_def Let_def split: sum.splits)

lemma seed_frame:
  "(\<And>n. q \<noteq> cnfDir @ [n]) \<Longrightarrow>
     map_of (files (snd (seed cnfDir names st))) q = map_of (files st) q"
  by (induction names arbitrary: st) (auto simp: copyfile_other split: sum.splits)

lemma seed_env [simp]:
  "cwd (snd (seed cnfDir names st)) = cwd st"
  "windows (snd (seed cnfDir names st)) = windows st"
  by (induction names arbitrary: st) (auto split: sum.splits)

lemma install_configuration_frame:
  "(\<And>n. q \<noteq> cnfDir @ [n]) \<Longrightarrow>
     map_of (files (install_configuration cnfDir st)) q = map_of (files st) q"
  by (auto simp: install_configuration_def seed_frame split: sum.splits)

lemma install_configuration_env [simp]:
  "cwd (install_configuration cnfDir st) = cwd st"
  "windows (install_configuration cnfDir st) = windows st"
  by (auto simp: install_configuration_def split: sum.splits)

lemma create_startup_script_env [simp]:
  "cwd (snd (create_startup_script d st)) = cwd st"
  "windows (snd (create_startup_script d st)) = windows st"
  "message (snd (create_startup_script d st)) = message st"
  by (auto simp: create_startup_script_def Let_def split: sum.splits)

lemma install_new_version_keeps:
  assumes "q \<noteq> d @ [APP]" "map_of (files st) q = Some e"
  shows "map_of (files (snd (install_new_version d st))) q = Some e"
proof (cases "copyfile (files st) (cwd st @ [APP]) (d @ [APP])")
  case (Inl e1)
  then show ?thesis using assms(2) by (simp add: install_new_version_def)
next
  case (Inr fs1)
  then have k1: "map_of fs1 q = Some e"
    using assms by (simp add: copyfile_other)
  show ?thesis
  proof (cases "copytree fs1 (cwd st @ [''locale'']) (d @ [''locale''])")
    case (Inl e2)
    then show ?thesis using Inr k1 by (simp add: install_new_version_def)
  next
    case (Inr fs2)
    then have k2: "map_of fs2 q = Some e"
      using k1 by (simp add: copytree_keeps)
    show ?thesis
    proof (cases "add_exec_bit fs2 (d @ [APP])")
      case (Inl e3)
      then show ?thesis
        using \<open>copyfile _ _ _ = Inr fs1\<close> Inr k2 by (simp add: install_new_version_def)
    next
      case (Inr fs3)
      then have "map_of fs3 q = Some e"
        using k2 assms(1) by (simp add: add_exec_bit_other)
      then show ?thesis
        using \<open>copyfile _ _ _ = Inr fs1\<close> \<open>copytree _ _ _ = Inr fs2\<close> Inr
        by (simp add: install_new_version_def)
    qed
  qed
qed

lemma install_from_new_fails:
  "delete_old_version d st = (None, st1) \<Longrightarrow> install_new_version d st1 = (Some e, st2) \<Longrightarrow>
     install_from u d c st = (Some e, st2)"
  by (simp add: install_from_def)

lemma install_from_ok:
  "delete_old_version d st = (None, st1) \<Longrightarrow> install_new_version d st1 = (None, st2) \<Longrightarrow>
     install_from u d c st =
       create_startup_script d (display_messages u d (install_configuration c st2))"
  by (simp add: install_from_def)

lemma install_eq:
  assumes "installDir = pywriterPath @ [APPNAME]" "cnfDir = installDir @ INI_PATH"
    and "makedirs (files st) pywriterPath True = Inr fs1"
    and "makedirs fs1 cnfDir True = Inr fs2"
  shows "install pywriterPath st =
     install_from (isfile (files st) (installDir @ [APP])) installDir cnfDir (st\<lparr>files := fs2\<rparr>)"
  using assms makedirs_isfile[OF assms(3), of "installDir @ [APP]"]
  by (simp add: install_def Let_def)

lemma main_eq:
  "main scriptDir homePath st0 =
     (case install (homePath @ [''.pywriter'']) (st0\<lparr>cwd := scriptDir\<rparr>) of
        (None, st') \<Rightarrow> st' | (Some ex, st') \<Rightarrow> output_text (error_str ex) st')"
  by (simp add: main_def Let_def)

lemma main_files:
  "files (main scriptDir homePath st0) =
     files (snd (install (homePath @ [''.pywriter'']) (st0\<lparr>cwd := scriptDir\<rparr>)))"
  by (simp add: main_eq split: prod.splits option.splits)

section \<open>A copy that raises\<close>

text \<open>
  Claim C3 (fatal copy failure). Let the main program reach the copy of the program file
  in state \<open>st1\<close>. If \<open>copyfile\<close> raises \<open>e\<close> there, or if it succeeds and \<open>copytree\<close>
  raises \<open>e\<close>, then \<open>install\<close> ends with \<open>e\<close> in the state \<open>st2\<close> in which the call
  raised, the main program appends the string of \<open>e\<close> as the last entry of the trace and
  does nothing else, and every regular file at or below the configuration directory is
  as it was before the run.
\<close>

theorem fatal_copy_error:
  assumes "st = st0\<lparr>cwd := scriptDir\<rparr>" and "pywriterPath = homePath @ [''.pywriter'']"
    and "installDir = pywriterPath @ [APPNAME]" and "cnfDir = installDir @ INI_PATH"
    and "makedirs (files st) pywriterPath True = Inr fs1"
    and "makedirs fs1 cnfDir True = Inr fs2"
    and "delete_old_version installDir (st\<lparr>files := fs2\<rparr>) = (None, st1)"
    and "copyfile (files st1) (cwd st1 @ [APP]) (installDir @ [APP]) = Inl e \<and> st2 = st1
       \<or> (\<exists>fs3. copyfile (files st1) (cwd st1 @ [APP]) (installDir @ [APP]) = Inr fs3
            \<and> st2 = output_text (''Copying '' @ quoted APP) (st1\<lparr>files := fs3\<rparr>)
            \<and> copytree fs3 (cwd st1 @ [''locale'']) (installDir @ [''locale'']) = Inl e)"
  shows "install pywriterPath st = (Some e, st2)
    \<and> main scriptDir homePath st0 = output_text (error_str e) st2
    \<and> last (message (main scriptDir homePath st0)) = error_str e
    \<and> (\<forall>q c x. prefix cnfDir q \<longrightarrow> map_of (files st0) q = Some (File c x)
          \<longrightarrow> map_of (files (main scriptDir homePath st0)) q = Some (File c x))"
proof -
  have n: "install_new_version installDir st1 = (Some e, st2)"
    using assms(8) by (auto simp: install_new_version_def Let_def)
  have i: "install pywriterPath st = (Some e, st2)"
    using install_eq[OF assms(3,4,5,6)] install_from_new_fails[OF assms(7) n] by simp
  have m: "main scriptDir homePath st0 = output_text (error_str e) st2"
    using i assms(1,2) by (simp add: main_eq)
  have c: "map_of (files (main scriptDir homePath st0)) q = Some (File c x)"
    if "prefix cnfDir q" "map_of (files st0) q = Some (File c x)" for q c x
  proof -
    have "map_of (files (snd (install pywriterPath st))) q = Some (File c x)"
      using that assms(1,3,4) by (intro install_config) simp_all
    then show ?thesis
      using assms(1,2) by (simp add: main_files)
  qed
  show ?thesis
    using i m c by simp
qed

theorem fatal_copy_error_witness:
  "copyfile (files no_program_state) (bundle_dir @ [APP]) (target @ [APP])
     = Inl (FileNotFoundError (bundle_dir @ [APP]))
   \<and> install (home_u @ [''.pywriter'']) no_program_state
       = (Some (FileNotFoundError (bundle_dir @ [APP])), no_program_state)
   \<and> last (message (main bundle_dir home_u no_program_state))
       = error_str (FileNotFoundError (bundle_dir @ [APP]))
   \<and> map_of (files (main bundle_dir home_u no_program_state)) (target @ [''config'', ''yw_table.ini''])
       = Some (File ''custom settings'' False)"
proof -
  have h1: "no_program_state = no_program_state\<lparr>cwd := bundle_dir\<rparr>"
    by code_simp
  have h2: "home_u @ [''.pywriter''] = home_u @ [''.pywriter'']"
    by simp
  have h3: "target = (home_u @ [''.pywriter'']) @ [APPNAME]"
    by code_simp
  have h4: "target @ [''config''] = target @ INI_PATH"
    by code_simp
  have h5: "makedirs (files no_program_state) (home_u @ [''.pywriter'']) True
      = Inr (files no_program_state)"
    by code_simp
  have h6: "makedirs (files no_program_state) (target @ [''config'']) True
      = Inr (files no_program_state)"
    by code_simp
  have h7: "delete_old_version target (no_program_state\<lparr>files := files no_program_state\<rparr>)
      = (None, no_program_state)"
    by code_simp
  have c: "copyfile (files no_program_state) (cwd no_program_state @ [APP]) (target @ [APP])
      = Inl (FileNotFoundError (bundle_dir @ [APP]))"
    by code_simp
  then have h8: "copyfile (files no_program_state) (cwd no_program_state @ [APP]) (target @ [APP])
        = Inl (FileNotFoundError (bundle_dir @ [APP])) \<and> no_program_state = no_program_state
     \<or> (\<exists>fs3. copyfile (files no_program_state) (cwd no_program_state @ [APP]) (target @ [APP]) = Inr fs3
          \<and> no_program_state = output_text (''Copying '' @ quoted APP) (no_program_state\<lparr>files := fs3\<rparr>)
          \<and> copytree fs3 (cwd no_program_state @ [''locale'']) (target @ [''locale''])
              = Inl (FileNotFoundError (bundle_dir @ [APP])))"
    by simp
  have cw: "cwd no_program_state = bundle_dir"
    by code_simp
  have p: "prefix (target @ [''config'']) (target @ [''config'', ''yw_table.ini''])"
    by simp
  have f: "map_of (files no_program_state) (target @ [''config'', ''yw_table.ini''])
      = Some (File ''custom settings'' False)"
    by code_simp
  note t = fatal_copy_error [OF h1 h2 h3 h4 h5 h6 h7 h8]
  show ?thesis
    using t c p f cw by simp
qed

lemma display_messages_message:
  "message (display_messages u d st) =
     message st @ [SUCCESS_MESSAGE APPNAME (path_str d @ ''/'' @ APP)]
       @ (if u then [] else [SHORTCUT_MESSAGE (path_str d @ ''/'' @ APP)])"
  by (simp add: display_messages_def Let_def)

lemma create_startup_script_flag:
  "fst (create_startup_script d (display_messages u d st)) = fst (create_startup_script d st)"
  "files (snd (create_startup_script d (display_messages u d st)))
     = files (snd (create_startup_script d st))"
  by (auto simp: create_startup_script_def Let_def split: sum.splits)

section \<open>Update or first installation\<close>

text \<open>
  Claim C4 (mode detection). The flag \<open>simpleUpdate\<close> that \<open>install\<close> passes on is
  whether \<open>{installDir}/{APP}\<close> is a regular file in the state in which \<open>install\<close> was
  called. Whatever the flag, lines 105--157 end with the same exception or none and
  with the same file system; the traces differ by the shortcut message alone, which is
  the last entry of the trace for the flag \<open>False\<close> when the run gets as far as
  the messages.
\<close>

theorem mode_detection:
  "install pywriterPath st =
     (case makedirs (files st) pywriterPath True of
        Inl e \<Rightarrow> (Some e, st)
      | Inr fs1 \<Rightarrow>
          (case makedirs fs1 ((pywriterPath @ [APPNAME]) @ INI_PATH) True of
             Inl e \<Rightarrow> (Some e, st\<lparr>files := fs1\<rparr>)
           | Inr fs2 \<Rightarrow>
               install_from (isfile (files st) ((pywriterPath @ [APPNAME]) @ [APP]))
                 (pywriterPath @ [APPNAME]) ((pywriterPath @ [APPNAME]) @ INI_PATH)
                 (st\<lparr>files := fs2\<rparr>)))
   \<and> fst (install_from True d c s) = fst (install_from False d c s)
   \<and> files (snd (install_from True d c s)) = files (snd (install_from False d c s))
   \<and> message (snd (install_from False d c s)) =
       message (snd (install_from True d c s))
       @ (if fst (delete_old_version d s) = None
             \<and> fst (install_new_version d (snd (delete_old_version d s))) = None
          then [SHORTCUT_MESSAGE (path_str d @ ''/'' @ APP)] else [])"
proof -
  have a: "install pywriterPath st =
     (case makedirs (files st) pywriterPath True of
        Inl e \<Rightarrow> (Some e, st)
      | Inr fs1 \<Rightarrow>
          (case makedirs fs1 ((pywriterPath @ [APPNAME]) @ INI_PATH) True of
             Inl e \<Rightarrow> (Some e, st\<lparr>files := fs1\<rparr>)
           | Inr fs2 \<Rightarrow>
               install_from (isfile (files st) ((pywriterPath @ [APPNAME]) @ [APP]))
                 (pywriterPath @ [APPNAME]) ((pywriterPath @ [APPNAME]) @ INI_PATH)
                 (st\<lparr>files := fs2\<rparr>)))"
  proof (cases "makedirs (files st) pywriterPath True")
    case (Inl e)
    then show ?thesis by (simp add: install_def)
  next
    case (Inr fs1)
    then show ?thesis
      using makedirs_isfile[OF Inr, of "(pywriterPath @ [APPNAME]) @ [APP]"]
      by (simp add: install_def Let_def split: sum.splits)
  qed
  obtain r1 s1 where d1: "delete_old_version d s = (r1, s1)"
    by (cases "delete_old_version d s")
  obtain r2 s2 where d2: "install_new_version d s1 = (r2, s2)"
    by (cases "install_new_version d s1")
  have b: "fst (install_from True d c s) = fst (install_from False d c s)
   \<and> files (snd (install_from True d c s)) = files (snd (install_from False d c s))
   \<and> message (snd (install_from False d c s)) =
       message (snd (install_from True d c s))
       @ (if fst (delete_old_version d s) = None
             \<and> fst (install_new_version d (snd (delete_old_version d s))) = None
          then [SHORTCUT_MESSAGE (path_str d @ ''/'' @ APP)] else [])"
  proof (cases r1)
    case (Some e)
    then show ?thesis using d1 by (simp add: install_from_def)
  next
    case None
    note r1 = None
    show ?thesis
    proof (cases r2)
      case (Some e)
      then show ?thesis using d1 d2 r1 by (simp add: install_from_def)
    next
      case None
      have "install_from u d c s =
          create_startup_script d (display_messages u d (install_configuration c s2))" for u
        using d1 d2 r1 None by (simp add: install_from_ok)
      then show ?thesis
        using d1 d2 r1 None
        by (simp add: create_startup_script_flag display_messages_message)
    qed
  qed
  show ?thesis
    using a b by (rule conjI)
qed

lemma not_prefix_longer [simp]: "\<not> prefix (p @ x # xs) p"
  by (auto simp: prefix_def)

lemma delete_old_version_keeps_root:
  assumes "isdir (files st) d"
  shows "isdir (files (snd (delete_old_version d st))) d"
  using assms delete_old_version_lookup(2)[OF assms, of d]
  by (simp add: isdir_iff)

lemma write_file_succeeds:
  assumes "isdir fs (butlast p)" "p \<noteq> []" "\<not> isdir fs p"
  shows "\<exists>fs'. write_file fs p d = Inr fs'"
  using assms by (auto simp: write_file_def isdir_iff split: option.splits entry.splits)

lemma install_dir_after_install_new_version:
  assumes "isdir (files st) d"
  shows "isdir (files (snd (install_new_version d st))) d"
  using assms install_new_version_keeps[of d d st Dir]
  by (simp add: isdir_iff)

section \<open>The start-up script\<close>




lemma seed_append:
  "seed c (pre @ rest) st =
     (case seed c pre st of (None, st1) \<Rightarrow> seed c rest st1 | (Some e, st1) \<Rightarrow> (Some e, st1))"
  by (induction pre arbitrary: st) (auto split: sum.splits)

lemma seed_frame_names:
  "(\<And>n. n \<in> set names \<Longrightarrow> q \<noteq> cnfDir @ [n]) \<Longrightarrow>
     map_of (files (snd (seed cnfDir names st))) q = map_of (files st) q"
  by (induction names arbitrary: st) (auto simp: copyfile_other split: sum.splits)

lemma copyfile_new:
  assumes "\<not> isfile fs dst" "copyfile fs src dst = Inr fs'"
  shows "\<exists>c x. map_of fs src = Some (File c x) \<and> map_of fs' dst = Some (File c False)"
  using assms
  by (auto simp: copyfile_def write_file_def isfile_iff update_conv'
      split: option.splits entry.splits if_splits)

lemma seed_result:
  assumes "distinct names" "seed c names st = (None, st')"
  shows "message st' = message st @ map (seed_line (files st) c) names
    \<and> (\<forall>n\<in>set names.
          if isfile (files st) (c @ [n])
          then map_of (files st') (c @ [n]) = map_of (files st) (c @ [n])
          else \<exists>d x. map_of (files st) (cwd st @ SAMPLE_PATH @ [n]) = Some (File d x)
                 \<and> map_of (files st') (c @ [n]) = Some (File d False))"
  using assms
proof (induction names arbitrary: st)
  case Nil
  then show ?case by simp
next
  case (Cons name names)
  have dn: "distinct names" and nin: "name \<notin> set names"
    using Cons.prems(1) by auto
  show ?case
  proof (cases "isfile (files st) (c @ [name])")
    case True
    define st1 where "st1 = output_text (''Keeping '' @ quoted name) st"
    have s: "seed c names st1 = (None, st')"
      using Cons.prems(2) True by (simp add: st1_def)
    have f1: "files st1 = files st" "cwd st1 = cwd st"
      "message st1 = message st @ [''Keeping '' @ quoted name]"
      by (simp_all add: st1_def)
    note ih = Cons.IH[OF dn s, unfolded f1]
    have "map_of (files (snd (seed c names st1))) (c @ [name]) = map_of (files st1) (c @ [name])"
      using nin by (intro seed_frame_names) auto
    then have here: "map_of (files st') (c @ [name]) = map_of (files st) (c @ [name])"
      using s f1 by simp
    have msg: "message st' = message st @ map (seed_line (files st) c) (name # names)"
      using ih True by (simp add: seed_line_def)
    from ih have rest: "\<forall>n\<in>set names.
          if isfile (files st) (c @ [n])
          then map_of (files st') (c @ [n]) = map_of (files st) (c @ [n])
          else \<exists>d x. map_of (files st) (cwd st @ SAMPLE_PATH @ [n]) = Some (File d x)
                 \<and> map_of (files st') (c @ [n]) = Some (File d False)"
      by blast
    show ?thesis
      using msg rest True here by simp
  next
    case False
    then obtain fs' where cp: "copyfile (files st) (cwd st @ SAMPLE_PATH @ [name]) (c @ [name]) = Inr fs'"
      using Cons.prems(2) by (auto split: sum.splits)
    define st1 where "st1 = output_text (''Copying '' @ quoted name) (st\<lparr>files := fs'\<rparr>)"
    have s: "seed c names st1 = (None, st')"
      using Cons.prems(2) False cp by (simp add: st1_def)
    have f1: "files st1 = fs'" "cwd st1 = cwd st"
      "message st1 = message st @ [''Copying '' @ quoted name]"
      by (simp_all add: st1_def)
    note ih = Cons.IH[OF dn s, unfolded f1]
    have oth: "map_of fs' q = map_of (files st) q" if "q \<noteq> c @ [name]" for q
      using copyfile_other[OF cp that] .
    have isf: "isfile fs' (c @ [m]) = isfile (files st) (c @ [m])" if "m \<in> set names" for m
    proof -
      have "m \<noteq> name" using that nin by auto
      then have "map_of fs' (c @ [m]) = map_of (files st) (c @ [m])"
        by (intro oth) simp
      then show ?thesis by (simp add: isfile_iff)
    qed
    have lines: "map (seed_line fs' c) names = map (seed_line (files st) c) names"
      by (rule map_cong) (auto simp: seed_line_def isf)
    from copyfile_new[OF False cp] obtain d x where
      src: "map_of (files st) (cwd st @ SAMPLE_PATH @ [name]) = Some (File d x)"
      and dst: "map_of fs' (c @ [name]) = Some (File d False)"
      by blast
    have "map_of (files (snd (seed c names st1))) (c @ [name]) = map_of (files st1) (c @ [name])"
      using nin by (intro seed_frame_names) auto
    then have here: "map_of (files st') (c @ [name]) = Some (File d False)"
      using s f1 dst by simp
    from ih have "message st' = (message st @ [''Copying '' @ quoted name]) @ map (seed_line fs' c) names"
      by blast
    then have "message st' = (message st @ [''Copying '' @ quoted name]) @ map (seed_line (files st) c) names"
      unfolding lines .
    moreover have "seed_line (files st) c name = ''Copying '' @ quoted name"
      using False by (simp add: seed_line_def)
    ultimately have msg: "message st' = message st @ map (seed_line (files st) c) (name # names)"
      by simp
    have rest: "if isfile (files st) (c @ [n])
          then map_of (files st') (c @ [n]) = map_of (files st) (c @ [n])
          else \<exists>d x. map_of (files st) (cwd st @ SAMPLE_PATH @ [n]) = Some (File d x)
                 \<and> map_of (files st') (c @ [n]) = Some (File d False)"
      if m: "n \<in> set names" for n
    proof -
      have ne: "n \<noteq> name" using m nin by auto
      have a: "map_of fs' (c @ [n]) = map_of (files st) (c @ [n])"
        using ne by (intro oth) simp
      have "cwd st @ SAMPLE_PATH @ [n] \<noteq> c @ [name]"
        using ne by (metis append_assoc last_snoc)
      then have b: "map_of fs' (cwd st @ SAMPLE_PATH @ [n]) = map_of (files st) (cwd st @ SAMPLE_PATH @ [n])"
        by (rule oth)
      from ih have "if isfile fs' (c @ [n])
          then map_of (files st') (c @ [n]) = map_of fs' (c @ [n])
          else \<exists>d x. map_of fs' (cwd st @ SAMPLE_PATH @ [n]) = Some (File d x)
                 \<and> map_of (files st') (c @ [n]) = Some (File d False)"
        using m by blast
      then show ?thesis
        unfolding isf[OF m] a b .
    qed
    have all: "\<forall>n\<in>set (name # names).
          if isfile (files st) (c @ [n])
          then map_of (files st') (c @ [n]) = map_of (files st) (c @ [n])
          else \<exists>d x. map_of (files st) (cwd st @ SAMPLE_PATH @ [n]) = Some (File d x)
                 \<and> map_of (files st') (c @ [n]) = Some (File d False)"
    proof
      fix n assume "n \<in> set (name # names)"
      then consider "n = name" | "n \<in> set names" by auto
      then show "if isfile (files st) (c @ [n])
          then map_of (files st') (c @ [n]) = map_of (files st) (c @ [n])
          else \<exists>d x. map_of (files st) (cwd st @ SAMPLE_PATH @ [n]) = Some (File d x)
                 \<and> map_of (files st') (c @ [n]) = Some (File d False)"
      proof cases
        case 1
        then show ?thesis using False src here by simp
      next
        case 2
        then show ?thesis by (rule rest)
      qed
    qed
    show ?thesis
      using msg all by (rule conjI)
  qed
qed

lemma seed_keeps:
  "map_of (files st) q = Some e \<Longrightarrow> map_of (files (snd (seed cnfDir names st))) q = Some e"
proof (induction names arbitrary: st)
  case Nil
  then show ?case by simp
next
  case (Cons name names)
  show ?case
  proof (cases "isfile (files st) (cnfDir @ [name])")
    case True
    then show ?thesis using Cons by simp
  next
    case False
    show ?thesis
    proof (cases "copyfile (files st) (cwd st @ SAMPLE_PATH @ [name]) (cnfDir @ [name])")
      case (Inl err)
      then show ?thesis using False Cons.prems by simp
    next
      case (Inr fs')
      have "map_of (files st) (cnfDir @ [name]) = None"
        using False Inr
        by (auto simp: copyfile_def write_file_def isfile_iff split: option.splits entry.splits if_splits)
      then have "q \<noteq> cnfDir @ [name]"
        using Cons.prems by auto
      then have "map_of fs' q = Some e"
        using copyfile_other[OF Inr] Cons.prems by simp
      then show ?thesis
        using False Inr Cons.IH[of "output_text (''Copying '' @ quoted name) (st\<lparr>files := fs'\<rparr>)"]
        by simp
    qed
  qed
qed

lemma seed_no_new_dir:
  "map_of (files (snd (seed cnfDir names st))) q = Some Dir \<Longrightarrow> map_of (files st) q = Some Dir"
proof (induction names arbitrary: st)
  case Nil
  then show ?case by simp
next
  case (Cons name names)
  show ?case
  proof (cases "isfile (files st) (cnfDir @ [name])")
    case True
    then have "map_of (files (snd (seed cnfDir names (output_text (''Keeping '' @ quoted name) st)))) q = Some Dir"
      using Cons.prems by simp
    from Cons.IH[OF this] show ?thesis by simp
  next
    case False
    show ?thesis
    proof (cases "copyfile (files st) (cwd st @ SAMPLE_PATH @ [name]) (cnfDir @ [name])")
      case (Inl err)
      then show ?thesis using False Cons.prems by simp
    next
      case (Inr fs')
      have "map_of (files (snd (seed cnfDir names
              (output_text (''Copying '' @ quoted name) (st\<lparr>files := fs'\<rparr>))))) q = Some Dir"
        using False Inr Cons.prems by simp
      from Cons.IH[OF this] have d: "map_of fs' q = Some Dir" by simp
      have "q \<noteq> cnfDir @ [name]"
        using copyfile_at[OF Inr] d by auto
      then show ?thesis
        using copyfile_other[OF Inr, of q] d by simp
    qed
  qed
qed

lemma seed_split:
  "\<exists>pre rest. names = pre @ rest \<and> fst (seed c pre st) = None
     \<and> (rest = [] \<or> (\<exists>name post e. rest = name # post
           \<and> \<not> isfile (files (snd (seed c pre st))) (c @ [name])
           \<and> copyfile (files (snd (seed c pre st))) (cwd st @ SAMPLE_PATH @ [name]) (c @ [name]) = Inl e))"
proof (induction names arbitrary: st)
  case Nil
  show ?case by (rule exI[of _ "[]"], rule exI[of _ "[]"]) simp
next
  case (Cons name names)
  show ?case
  proof (cases "isfile (files st) (c @ [name])")
    case True
    define st1 where "st1 = output_text (''Keeping '' @ quoted name) st"
    have s: "seed c (name # pre) st = seed c pre st1" for pre
      using True by (simp add: st1_def)
    have cw: "cwd st1 = cwd st" by (simp add: st1_def)
    from Cons.IH[of st1] obtain pre rest where
      "names = pre @ rest" "fst (seed c pre st1) = None"
      "rest = [] \<or> (\<exists>name post e. rest = name # post
           \<and> \<not> isfile (files (snd (seed c pre st1))) (c @ [name])
           \<and> copyfile (files (snd (seed c pre st1))) (cwd st1 @ SAMPLE_PATH @ [name]) (c @ [name]) = Inl e)"
      by blast
    then show ?thesis
      unfolding cw s[symmetric]
      by (intro exI[of _ "name # pre"] exI[of _ rest]) simp
  next
    case False
    show ?thesis
    proof (cases "copyfile (files st) (cwd st @ SAMPLE_PATH @ [name]) (c @ [name])")
      case (Inl e)
      show ?thesis
        using False Inl by (intro exI[of _ "[]"] exI[of _ "name # names"]) simp
    next
      case (Inr fs')
      define st1 where "st1 = output_text (''Copying '' @ quoted name) (st\<lparr>files := fs'\<rparr>)"
      have s: "seed c (name # pre) st = seed c pre st1" for pre
        using False Inr by (simp add: st1_def)
      have cw: "cwd st1 = cwd st" by (simp add: st1_def)
      from Cons.IH[of st1] obtain pre rest where
        "names = pre @ rest" "fst (seed c pre st1) = None"
        "rest = [] \<or> (\<exists>name post e. rest = name # post
           \<and> \<not> isfile (files (snd (seed c pre st1))) (c @ [name])
           \<and> copyfile (files (snd (seed c pre st1))) (cwd st1 @ SAMPLE_PATH @ [name]) (c @ [name]) = Inl e)"
        by blast
      then show ?thesis
        unfolding cw s[symmetric]
        by (intro exI[of _ "name # pre"] exI[of _ rest]) simp
    qed
  qed
qed

lemma seed_stops:
  assumes "fst (seed c pre st) = None"
    and "rest = [] \<or> (\<exists>name post e. rest = name # post
           \<and> \<not> isfile (files (snd (seed c pre st))) (c @ [name])
           \<and> copyfile (files (snd (seed c pre st))) (cwd st @ SAMPLE_PATH @ [name]) (c @ [name]) = Inl e)"
  shows "snd (seed c (pre @ rest) st) = snd (seed c pre st)"
    and "fst (seed c (pre @ rest) st) = None \<longleftrightarrow> rest = []"
proof -
  obtain st1 where s: "seed c pre st = (None, st1)"
    using assms(1) by (cases "seed c pre st") auto
  have cw: "cwd st1 = cwd st"
    using seed_env(1)[of c pre st] s by simp
  show "snd (seed c (pre @ rest) st) = snd (seed c pre st)"
    using assms(2) s cw by (auto simp: seed_append)
  show "fst (seed c (pre @ rest) st) = None \<longleftrightarrow> rest = []"
    using assms(2) s cw by (auto simp: seed_append)
qed

section \<open>Seeding the configuration\<close>

text \<open>
  Claim C6 (config seeding), as amended. Let the sample directory list \<open>pre @ rest\<close>,
  where the entries of \<open>pre\<close> are handled without an exception and \<open>rest\<close> is empty or
  starts with an entry whose copy raises. Then for every entry of \<open>pre\<close>: when a regular
  file of that name exists in the configuration directory it is left as it is and a
  \<open>Keeping\<close> line is reported; otherwise the sample file is copied there and a \<open>Copying\<close>
  line is reported; the lines appear in the order of the listing. For the entries of
  \<open>rest\<close> the configuration directory holds what it held before. Every listing splits in
  this way, and \<open>rest\<close> is empty exactly when no copy raises. If the sample directory does
  not exist, the step changes nothing.
\<close>

theorem config_seeding:
  "(scandir (files st) (cwd st @ SAMPLE_PATH) = Inr (pre @ rest)
      \<and> fst (seed cnfDir pre st) = None
      \<and> (rest = [] \<or> (\<exists>name post e. rest = name # post
            \<and> \<not> isfile (files (snd (seed cnfDir pre st))) (cnfDir @ [name])
            \<and> copyfile (files (snd (seed cnfDir pre st))) (cwd st @ SAMPLE_PATH @ [name])
                  (cnfDir @ [name]) = Inl e))
     \<longrightarrow>
       install_configuration cnfDir st = snd (seed cnfDir pre st)
       \<and> message (install_configuration cnfDir st) =
           message st @ map (\<lambda>n. (if isfile (files st) (cnfDir @ [n]) then ''Keeping '' else ''Copying '')
                                 @ quoted n) pre
       \<and> (\<forall>n\<in>set pre.
             if isfile (files st) (cnfDir @ [n])
             then map_of (files (install_configuration cnfDir st)) (cnfDir @ [n])
                    = map_of (files st) (cnfDir @ [n])
             else \<exists>d x. map_of (files st) (cwd st @ SAMPLE_PATH @ [n]) = Some (File d x)
                    \<and> map_of (files (install_configuration cnfDir st)) (cnfDir @ [n])
                        = Some (File d False))
       \<and> (\<forall>n\<in>set rest. map_of (files (install_configuration cnfDir st)) (cnfDir @ [n])
                              = map_of (files st) (cnfDir @ [n])))
   \<and> (scandir (files st) (cwd st @ SAMPLE_PATH) = Inr names \<longrightarrow>
        (\<exists>pre rest. names = pre @ rest
           \<and> fst (seed cnfDir pre st) = None
           \<and> (rest = [] \<longleftrightarrow> fst (seed cnfDir names st) = None)
           \<and> (rest = [] \<or> (\<exists>name post e. rest = name # post
                 \<and> \<not> isfile (files (snd (seed cnfDir pre st))) (cnfDir @ [name])
                 \<and> copyfile (files (snd (seed cnfDir pre st))) (cwd st @ SAMPLE_PATH @ [name])
                       (cnfDir @ [name]) = Inl e))))
   \<and> (map_of (files st) (cwd st @ SAMPLE_PATH) = None \<longrightarrow> install_configuration cnfDir st = st)"
proof (intro conjI impI)
  assume a: "scandir (files st) (cwd st @ SAMPLE_PATH) = Inr (pre @ rest)
      \<and> fst (seed cnfDir pre st) = None
      \<and> (rest = [] \<or> (\<exists>name post e. rest = name # post
            \<and> \<not> isfile (files (snd (seed cnfDir pre st))) (cnfDir @ [name])
            \<and> copyfile (files (snd (seed cnfDir pre st))) (cwd st @ SAMPLE_PATH @ [name])
                  (cnfDir @ [name]) = Inl e))"
  then have sc: "scandir (files st) (cwd st @ SAMPLE_PATH) = Inr (pre @ rest)"
    and ok: "fst (seed cnfDir pre st) = None"
    and stop: "rest = [] \<or> (\<exists>name post e. rest = name # post
            \<and> \<not> isfile (files (snd (seed cnfDir pre st))) (cnfDir @ [name])
            \<and> copyfile (files (snd (seed cnfDir pre st))) (cwd st @ SAMPLE_PATH @ [name])
                  (cnfDir @ [name]) = Inl e)"
    by blast+
  obtain st1 where s: "seed cnfDir pre st = (None, st1)"
    using ok by (cases "seed cnfDir pre st") auto
  have ic: "install_configuration cnfDir st = st1"
    using sc seed_stops(1)[OF ok stop] s by (simp add: install_configuration_def)
  have d: "distinct (pre @ rest)"
    using scandir_names(2)[OF sc] .
  then have dp: "distinct pre" by simp
  note r = seed_result[OF dp s]
  show "install_configuration cnfDir st = snd (seed cnfDir pre st)"
    by (simp add: ic s)
  show "message (install_configuration cnfDir st) =
           message st @ map (\<lambda>n. (if isfile (files st) (cnfDir @ [n]) then ''Keeping '' else ''Copying '')
                                 @ quoted n) pre"
    using r by (simp add: ic seed_line_def)
  show "\<forall>n\<in>set pre.
             if isfile (files st) (cnfDir @ [n])
             then map_of (files (install_configuration cnfDir st)) (cnfDir @ [n])
                    = map_of (files st) (cnfDir @ [n])
             else \<exists>d x. map_of (files st) (cwd st @ SAMPLE_PATH @ [n]) = Some (File d x)
                    \<and> map_of (files (install_configuration cnfDir st)) (cnfDir @ [n])
                        = Some (File d False)"
    unfolding ic using r by blast
  show "\<forall>n\<in>set rest. map_of (files (install_configuration cnfDir st)) (cnfDir @ [n])
                              = map_of (files st) (cnfDir @ [n])"
  proof
    fix n assume n: "n \<in> set rest"
    have "map_of (files (snd (seed cnfDir pre st))) (cnfDir @ [n]) = map_of (files st) (cnfDir @ [n])"
      using d n by (intro seed_frame_names) auto
    then show "map_of (files (install_configuration cnfDir st)) (cnfDir @ [n])
                              = map_of (files st) (cnfDir @ [n])"
      by (simp add: ic s)
  qed
next
  assume "scandir (files st) (cwd st @ SAMPLE_PATH) = Inr names"
  from seed_split[of names cnfDir st] obtain pre rest where
    n: "names = pre @ rest" and ok: "fst (seed cnfDir pre st) = None"
    and stop: "rest = [] \<or> (\<exists>name post e. rest = name # post
           \<and> \<not> isfile (files (snd (seed cnfDir pre st))) (cnfDir @ [name])
           \<and> copyfile (files (snd (seed cnfDir pre st))) (cwd st @ SAMPLE_PATH @ [name])
                 (cnfDir @ [name]) = Inl e)"
    by blast
  have "rest = [] \<longleftrightarrow> fst (seed cnfDir names st) = None"
    using seed_stops(2)[OF ok stop] n by simp
  then show "\<exists>pre rest. names = pre @ rest
           \<and> fst (seed cnfDir pre st) = None
           \<and> (rest = [] \<longleftrightarrow> fst (seed cnfDir names st) = None)
           \<and> (rest = [] \<or> (\<exists>name post e. rest = name # post
                 \<and> \<not> isfile (files (snd (seed cnfDir pre st))) (cnfDir @ [name])
                 \<and> copyfile (files (snd (seed cnfDir pre st))) (cwd st @ SAMPLE_PATH @ [name])
                       (cnfDir @ [name]) = Inl e))"
    using n ok stop by blast
next
  assume "map_of (files st) (cwd st @ SAMPLE_PATH) = None"
  then show "install_configuration cnfDir st = st"
    by (simp add: install_configuration_def scandir_def)
qed

theorem config_seeding_witness:
  "scandir (files update_state) (cwd update_state @ SAMPLE_PATH) = Inr ([''yw_table.ini'', ''colors.ini''] @ [])
   \<and> message (install_configuration (target @ [''config'']) update_state)
       = [''Keeping '' @ quoted ''yw_table.ini'', ''Copying '' @ quoted ''colors.ini'']
   \<and> map_of (files (install_configuration (target @ [''config'']) update_state))
         (target @ [''config'', ''yw_table.ini'']) = Some (File ''custom settings'' False)
   \<and> map_of (files (install_configuration (target @ [''config'']) update_state))
         (target @ [''config'', ''colors.ini'']) = Some (File ''colours'' False)
   \<and> scandir (files nested_sample_state) (cwd nested_sample_state @ SAMPLE_PATH)
       = Inr ([''colors.ini''] @ [''themes'', ''yw_table.ini''])
   \<and> message (install_configuration (target @ [''config'']) nested_sample_state)
       = [''Copying '' @ quoted ''colors.ini'']
   \<and> map_of (files (install_configuration (target @ [''config'']) nested_sample_state))
         (target @ [''config'', ''colors.ini'']) = Some (File ''colours'' False)
   \<and> map_of (files (install_configuration (target @ [''config'']) nested_sample_state))
         (target @ [''config'', ''yw_table.ini'']) = None
   \<and> map_of (files no_program_state) (cwd no_program_state @ SAMPLE_PATH) = None
   \<and> install_configuration (target @ [''config'']) no_program_state = no_program_state"
proof -
  let ?c = "target @ [''config'']"
  let ?u = "install_configuration ?c update_state"
  let ?n = "install_configuration ?c nested_sample_state"
  \<comment> \<open>no copy raises\<close>
  have u1: "scandir (files update_state) (cwd update_state @ SAMPLE_PATH)
      = Inr ([''yw_table.ini'', ''colors.ini''] @ [])"
    and u2: "fst (seed ?c [''yw_table.ini'', ''colors.ini''] update_state) = None"
    by code_simp+
  have uk: "isfile (files update_state) (?c @ [''yw_table.ini''])"
    and un: "\<not> isfile (files update_state) (?c @ [''colors.ini''])"
    and um: "message update_state = []"
    and uv1: "map_of (files update_state) (?c @ [''yw_table.ini'']) = Some (File ''custom settings'' False)"
    and uv2: "map_of (files update_state) (cwd update_state @ SAMPLE_PATH @ [''colors.ini''])
        = Some (File ''colours'' False)"
    by code_simp+
  note t = config_seeding [of update_state "[''yw_table.ini'', ''colors.ini'']" "[]" ?c]
  from t u1 u2 have umsg: "message ?u =
        message update_state @ map (\<lambda>n. (if isfile (files update_state) (?c @ [n]) then ''Keeping '' else ''Copying '')
                              @ quoted n) [''yw_table.ini'', ''colors.ini'']"
    and ueach: "\<forall>n\<in>set [''yw_table.ini'', ''colors.ini''].
            if isfile (files update_state) (?c @ [n])
            then map_of (files ?u) (?c @ [n]) = map_of (files update_state) (?c @ [n])
            else \<exists>d x. map_of (files update_state) (cwd update_state @ SAMPLE_PATH @ [n]) = Some (File d x)
                   \<and> map_of (files ?u) (?c @ [n]) = Some (File d False)"
    by blast+
  have a: "message ?u = [''Keeping '' @ quoted ''yw_table.ini'', ''Copying '' @ quoted ''colors.ini'']"
    using umsg uk un um by simp
  have b: "map_of (files ?u) (?c @ [''yw_table.ini'']) = Some (File ''custom settings'' False)"
    using ueach uk uv1 by simp
  have c: "map_of (files ?u) (?c @ [''colors.ini'']) = Some (File ''colours'' False)"
    using ueach un uv2 by simp
  \<comment> \<open>the copy of the second entry raises\<close>
  have n1: "scandir (files nested_sample_state) (cwd nested_sample_state @ SAMPLE_PATH)
      = Inr ([''colors.ini''] @ [''themes'', ''yw_table.ini''])"
    and n2: "fst (seed ?c [''colors.ini''] nested_sample_state) = None"
    and n3: "\<not> isfile (files (snd (seed ?c [''colors.ini''] nested_sample_state))) (?c @ [''themes''])"
    and n4: "copyfile (files (snd (seed ?c [''colors.ini''] nested_sample_state)))
          (cwd nested_sample_state @ SAMPLE_PATH @ [''themes'']) (?c @ [''themes''])
        = Inl (IsADirectoryError (bundle_dir @ SAMPLE_PATH @ [''themes'']))"
    by code_simp+
  have nn: "\<not> isfile (files nested_sample_state) (?c @ [''colors.ini''])"
    and nm: "message nested_sample_state = []"
    and nv: "map_of (files nested_sample_state) (cwd nested_sample_state @ SAMPLE_PATH @ [''colors.ini''])
        = Some (File ''colours'' False)"
    and ny: "map_of (files nested_sample_state) (?c @ [''yw_table.ini'']) = None"
    by code_simp+
  have n5: "[''themes'', ''yw_table.ini''] = [] \<or> (\<exists>name post e. [''themes'', ''yw_table.ini''] = name # post
            \<and> \<not> isfile (files (snd (seed ?c [''colors.ini''] nested_sample_state))) (?c @ [name])
            \<and> copyfile (files (snd (seed ?c [''colors.ini''] nested_sample_state)))
                  (cwd nested_sample_state @ SAMPLE_PATH @ [name]) (?c @ [name]) = Inl e)"
    using n3 n4 by blast
  note v = config_seeding [of nested_sample_state "[''colors.ini'']" "[''themes'', ''yw_table.ini'']" ?c]
  from v n1 n2 n5 have nmsg: "message ?n =
        message nested_sample_state @ map (\<lambda>n. (if isfile (files nested_sample_state) (?c @ [n]) then ''Keeping '' else ''Copying '')
                              @ quoted n) [''colors.ini'']"
    and neach: "\<forall>n\<in>set [''colors.ini''].
            if isfile (files nested_sample_state) (?c @ [n])
            then map_of (files ?n) (?c @ [n]) = map_of (files nested_sample_state) (?c @ [n])
            else \<exists>d x. map_of (files nested_sample_state) (cwd nested_sample_state @ SAMPLE_PATH @ [n]) = Some (File d x)
                   \<and> map_of (files ?n) (?c @ [n]) = Some (File d False)"
    and nrest: "\<forall>n\<in>set [''themes'', ''yw_table.ini'']. map_of (files ?n) (?c @ [n])
                              = map_of (files nested_sample_state) (?c @ [n])"
    by blast+
  have d: "message ?n = [''Copying '' @ quoted ''colors.ini'']"
    using nmsg nn nm by simp
  have e: "map_of (files ?n) (?c @ [''colors.ini'']) = Some (File ''colours'' False)"
    using neach nn nv by simp
  have f: "map_of (files ?n) (?c @ [''yw_table.ini'']) = None"
    using nrest ny by simp
  \<comment> \<open>no sample directory\<close>
  have h3: "map_of (files no_program_state) (cwd no_program_state @ SAMPLE_PATH) = None"
    by code_simp
  have g: "install_configuration ?c no_program_state = no_program_state"
    using config_seeding [of no_program_state "[]" "[]" ?c] h3 by blast
  show ?thesis
    using u1 n1 h3 a b c d e f g by simp
qed

text \<open>
  The amendment is needed: when a directory in the sample directory is listed before a
  sample file, its copy raises, the bare \<open>except\<close> ends the loop, and the sample file is
  not copied although the configuration directory has no file of that name.
\<close>

theorem config_seeding_counterexample:
  "scandir (files nested_sample_state) (cwd nested_sample_state @ SAMPLE_PATH)
     = Inr [''colors.ini'', ''themes'', ''yw_table.ini'']
   \<and> isfile (files nested_sample_state) (cwd nested_sample_state @ SAMPLE_PATH @ [''yw_table.ini''])
   \<and> map_of (files nested_sample_state) (target @ INI_PATH @ [''yw_table.ini'']) = None
   \<and> fst (install (home_u @ [''.pywriter'']) nested_sample_state) = None
   \<and> map_of (files (snd (install (home_u @ [''.pywriter'']) nested_sample_state)))
         (target @ INI_PATH @ [''yw_table.ini'']) = None"
  by code_simp

lemma seed_prefix_message:
  "seed c pre st = (None, st1) \<Longrightarrow> distinct pre \<Longrightarrow>
     message st1 = message st @ map (seed_line (files st) c) pre"
  using seed_result[of pre c st st1] by simp

lemma delete_old_version_ok_isdir:
  assumes "delete_old_version d st = (None, st1)"
  shows "isdir (files st) d"
proof -
  obtain names where "scandir (rmtree (files st) (d @ [''locale''])) d = Inr names"
    using assms by (auto simp: delete_old_version_def Let_def split: sum.splits)
  then have "isdir (rmtree (files st) (d @ [''locale''])) d"
    using scandir_Inr_iff by blast
  then show ?thesis
    by (simp add: isdir_iff rmtree_lookup split: if_splits)
qed

lemma write_file_on_dir:
  "isdir fs p \<Longrightarrow> write_file fs p d = Inl (IsADirectoryError p)"
  by (simp add: write_file_def isdir_iff)

text \<open>
  Claim C10 (a failing copy ends the seeding). Let the sample directory list
  \<open>pre @ name # post\<close> and let the copy of \<open>name\<close> raise after the entries of \<open>pre\<close> were
  handled. Then the loop ends in the state reached after \<open>pre\<close>: the trace has the lines
  for \<open>pre\<close> only, and the configuration directory holds for \<open>name\<close> and for every entry
  of \<open>post\<close> what it held before the step. The run goes on: the trace gains the success
  message and, unless this is an update, the shortcut message, and the start-up script
  is written with its content for the platform; only when a directory stands in its
  place does \<open>open\<close> raise \<open>IsADirectoryError\<close> instead.
\<close>

theorem seeding_abort:
  assumes "delete_old_version installDir st = (None, st1)"
    and "install_new_version installDir st1 = (None, st2)"
    and "scandir (files st2) (cwd st2 @ SAMPLE_PATH) = Inr (pre @ name # post)"
    and "seed cnfDir pre st2 = (None, st3)"
    and "\<not> isfile (files st3) (cnfDir @ [name])"
    and "copyfile (files st3) (cwd st3 @ SAMPLE_PATH @ [name]) (cnfDir @ [name]) = Inl e"
  shows "seed cnfDir (pre @ name # post) st2 = (Some e, st3)
    \<and> install_configuration cnfDir st2 = st3
    \<and> message st3 = message st2
         @ map (\<lambda>n. (if isfile (files st2) (cnfDir @ [n]) then ''Keeping '' else ''Copying '')
                    @ quoted n) pre
    \<and> (\<forall>n\<in>set (name # post). map_of (files st3) (cnfDir @ [n]) = map_of (files st2) (cnfDir @ [n]))
    \<and> install_from simpleUpdate installDir cnfDir st =
         create_startup_script installDir (display_messages simpleUpdate installDir st3)
    \<and> message (snd (install_from simpleUpdate installDir cnfDir st)) =
         message st3 @ [SUCCESS_MESSAGE APPNAME (path_str installDir @ ''/'' @ APP)]
           @ (if simpleUpdate then [] else [SHORTCUT_MESSAGE (path_str installDir @ ''/'' @ APP)])
    \<and> (\<not> isdir (files st) (installDir @ [START_UP_SCRIPT]) \<longrightarrow>
          fst (install_from simpleUpdate installDir cnfDir st) = None
          \<and> (\<exists>x. map_of (files (snd (install_from simpleUpdate installDir cnfDir st)))
                    (installDir @ [START_UP_SCRIPT]) =
                 Some (File (if windows st
                             then ''import yw_table'' @ [nl] @ ''yw_table.main()'' @ [nl]
                             else ''#!/usr/bin/python3'' @ [nl]
                                  @ ''import yw_table'' @ [nl] @ ''yw_table.main()'' @ [nl]) x)))
    \<and> (isdir (files st) (installDir @ [START_UP_SCRIPT]) \<longrightarrow>
          fst (install_from simpleUpdate installDir cnfDir st)
            = Some (IsADirectoryError (installDir @ [START_UP_SCRIPT])))"
proof -
  let ?p = "installDir @ [START_UP_SCRIPT]"
  let ?r = "install_from simpleUpdate installDir cnfDir st"
  define st4 where "st4 = display_messages simpleUpdate installDir st3"
  have d: "distinct (pre @ name # post)"
    using scandir_names(2)[OF assms(3)] .
  have a: "seed cnfDir (pre @ name # post) st2 = (Some e, st3)"
    using assms(4,5,6) by (simp add: seed_append)
  have b: "install_configuration cnfDir st2 = st3"
    using assms(3) a by (simp add: install_configuration_def)
  have c: "message st3 = message st2
         @ map (\<lambda>n. (if isfile (files st2) (cnfDir @ [n]) then ''Keeping '' else ''Copying '')
                    @ quoted n) pre"
    using seed_prefix_message[OF assms(4)] d by (simp add: seed_line_def)
  have f: "\<forall>n\<in>set (name # post). map_of (files st3) (cnfDir @ [n]) = map_of (files st2) (cnfDir @ [n])"
  proof
    fix n assume n: "n \<in> set (name # post)"
    have "map_of (files (snd (seed cnfDir pre st2))) (cnfDir @ [n]) = map_of (files st2) (cnfDir @ [n])"
      using d n by (intro seed_frame_names) auto
    then show "map_of (files st3) (cnfDir @ [n]) = map_of (files st2) (cnfDir @ [n])"
      using assms(4) by simp
  qed
  have g: "?r = create_startup_script installDir st4"
    using install_from_ok[OF assms(1,2)] b by (simp add: st4_def)
  have h: "message (snd ?r) =
         message st3 @ [SUCCESS_MESSAGE APPNAME (path_str installDir @ ''/'' @ APP)]
           @ (if simpleUpdate then [] else [SHORTCUT_MESSAGE (path_str installDir @ ''/'' @ APP)])"
    unfolding g by (simp add: display_messages_message st4_def)
  \<comment> \<open>what the last step finds\<close>
  have st3_eq: "st3 = snd (seed cnfDir pre st2)"
    using assms(4) by simp
  have f4: "files st4 = files st3" "windows st4 = windows st"
    using delete_old_version_env(2)[of installDir st] install_new_version_env(2)[of installDir st1]
      seed_env(2)[of cnfDir pre st2] assms(1,2,4)
    by (simp_all add: st4_def)
  have dir0: "isdir (files st) installDir"
    using delete_old_version_ok_isdir[OF assms(1)] .
  have "isdir (files st1) installDir"
    using delete_old_version_keeps_root[OF dir0] assms(1) by simp
  then have "isdir (files st2) installDir"
    using install_dir_after_install_new_version[of st1 installDir] assms(2) by simp
  then have dir3: "isdir (files st3) installDir"
    unfolding st3_eq by (simp add: isdir_iff seed_keeps)
  have script: "create_startup_script installDir st4 =
      (case write_file (files st3) ?p
              ((if windows st then [] else ''#!/usr/bin/python3'' @ [nl]) @ START_UP_CODE) of
         Inl e \<Rightarrow> (Some e, st4) | Inr fs' \<Rightarrow> (None, st4\<lparr>files := fs'\<rparr>))"
    by (simp add: create_startup_script_def Let_def f4)
  have i: "fst ?r = None
          \<and> (\<exists>x. map_of (files (snd ?r)) ?p =
                 Some (File (if windows st
                             then ''import yw_table'' @ [nl] @ ''yw_table.main()'' @ [nl]
                             else ''#!/usr/bin/python3'' @ [nl]
                                  @ ''import yw_table'' @ [nl] @ ''yw_table.main()'' @ [nl]) x))"
    if nd: "\<not> isdir (files st) ?p"
  proof -
    have "\<not> isdir (files st1) ?p"
      using delete_old_version_only_deletes[of installDir st ?p Dir] assms(1) nd
      by (auto simp: isdir_iff)
    moreover have "map_of (files st2) ?p = map_of (files st1) ?p"
      using install_new_version_frame[of ?p installDir st1] assms(2)
      by (simp add: START_UP_SCRIPT_def APP_def APPNAME_def)
    ultimately have "\<not> isdir (files st2) ?p"
      by (simp add: isdir_iff)
    then have n3: "\<not> isdir (files st3) ?p"
      unfolding st3_eq using seed_no_new_dir[of cnfDir pre st2 ?p] by (auto simp: isdir_iff)
    obtain fs' where wr: "write_file (files st3) ?p
        ((if windows st then [] else ''#!/usr/bin/python3'' @ [nl]) @ START_UP_CODE) = Inr fs'"
      using write_file_succeeds[of "files st3" ?p] dir3 n3 by auto
    from write_file_at[OF wr] obtain x where
      "map_of fs' ?p = Some (File ((if windows st then [] else ''#!/usr/bin/python3'' @ [nl])
          @ START_UP_CODE) x)"
      by blast
    then show ?thesis
      unfolding g script wr by (auto simp: START_UP_CODE_def APPNAME_def)
  qed
  have j: "fst ?r = Some (IsADirectoryError ?p)" if isd: "isdir (files st) ?p"
  proof -
    have "map_of (files st1) ?p = Some Dir"
      using delete_old_version_lookup(2)[OF dir0, of ?p] assms(1) isd
      by (auto simp: isdir_iff isfile_iff START_UP_SCRIPT_def)
    then have "map_of (files st2) ?p = Some Dir"
      using install_new_version_keeps[of ?p installDir st1 Dir] assms(2)
      by (simp add: START_UP_SCRIPT_def APP_def APPNAME_def)
    then have "isdir (files st3) ?p"
      unfolding st3_eq by (simp add: isdir_iff seed_keeps)
    then show ?thesis
      unfolding g script by (simp add: write_file_on_dir)
  qed
  show ?thesis
    using a b c f g[unfolded st4_def] h i j by blast
qed

theorem seeding_abort_witness:
  "scandir (files nested_sample_state) (cwd nested_sample_state @ SAMPLE_PATH)
     = Inr ([''colors.ini''] @ ''themes'' # [''yw_table.ini''])
   \<and> message (install_configuration (target @ [''config''])
        (snd (install_new_version target (snd (delete_old_version target nested_sample_state)))))
       = [''Copying '' @ quoted APP, ''Copying '' @ quoted ''locale'', ''Copying '' @ quoted ''colors.ini'']
   \<and> map_of (files (install_configuration (target @ [''config''])
        (snd (install_new_version target (snd (delete_old_version target nested_sample_state))))))
        (target @ [''config'', ''yw_table.ini'']) = None
   \<and> message (snd (install_from False target (target @ [''config'']) nested_sample_state))
       = [''Copying '' @ quoted APP, ''Copying '' @ quoted ''locale'', ''Copying '' @ quoted ''colors.ini'',
          SUCCESS_MESSAGE APPNAME (path_str target @ ''/'' @ APP),
          SHORTCUT_MESSAGE (path_str target @ ''/'' @ APP)]
   \<and> fst (install_from False target (target @ [''config'']) nested_sample_state) = None
   \<and> (\<exists>x. map_of (files (snd (install_from False target (target @ [''config'']) nested_sample_state)))
             (target @ [START_UP_SCRIPT])
           = Some (File (''#!/usr/bin/python3'' @ [nl]
                         @ ''import yw_table'' @ [nl] @ ''yw_table.main()'' @ [nl]) x))"
proof -
  let ?c = "target @ [''config'']"
  let ?st1 = "snd (delete_old_version target nested_sample_state)"
  let ?st2 = "snd (install_new_version target ?st1)"
  let ?st3 = "snd (seed ?c [''colors.ini''] ?st2)"
  let ?e = "IsADirectoryError (bundle_dir @ SAMPLE_PATH @ [''themes''])"
  let ?r = "install_from False target ?c nested_sample_state"
  have h1: "delete_old_version target nested_sample_state = (None, ?st1)"
    by code_simp
  have h2: "install_new_version target ?st1 = (None, ?st2)"
    by code_simp
  have h3: "scandir (files ?st2) (cwd ?st2 @ SAMPLE_PATH) = Inr ([''colors.ini''] @ ''themes'' # [''yw_table.ini''])"
    by code_simp
  have h4: "seed ?c [''colors.ini''] ?st2 = (None, ?st3)"
    by code_simp
  have h5: "\<not> isfile (files ?st3) (?c @ [''themes''])"
    by code_simp
  have h6: "copyfile (files ?st3) (cwd ?st3 @ SAMPLE_PATH @ [''themes'']) (?c @ [''themes'']) = Inl ?e"
    by code_simp
  have s0: "scandir (files nested_sample_state) (cwd nested_sample_state @ SAMPLE_PATH)
     = Inr ([''colors.ini''] @ ''themes'' # [''yw_table.ini''])"
    by code_simp
  have m2: "message ?st2 = [''Copying '' @ quoted APP, ''Copying '' @ quoted ''locale'']"
    and f2: "\<not> isfile (files ?st2) (?c @ [''colors.ini''])"
    and v2: "map_of (files ?st2) (?c @ [''yw_table.ini'']) = None"
    and nd: "\<not> isdir (files nested_sample_state) (target @ [START_UP_SCRIPT])"
    and w: "windows nested_sample_state = False"
    by code_simp+
  note t = seeding_abort [OF h1 h2 h3 h4 h5 h6, of False]
  from t have ic: "install_configuration ?c ?st2 = ?st3"
    and m3: "message ?st3 = message ?st2
         @ map (\<lambda>n. (if isfile (files ?st2) (?c @ [n]) then ''Keeping '' else ''Copying '')
                    @ quoted n) [''colors.ini'']"
    and un: "\<forall>n\<in>set (''themes'' # [''yw_table.ini'']). map_of (files ?st3) (?c @ [n]) = map_of (files ?st2) (?c @ [n])"
    and fin: "message (snd ?r) =
         message ?st3 @ [SUCCESS_MESSAGE APPNAME (path_str target @ ''/'' @ APP)]
           @ (if False then [] else [SHORTCUT_MESSAGE (path_str target @ ''/'' @ APP)])"
    and scr: "\<not> isdir (files nested_sample_state) (target @ [START_UP_SCRIPT]) \<longrightarrow>
          fst ?r = None
          \<and> (\<exists>x. map_of (files (snd ?r)) (target @ [START_UP_SCRIPT]) =
                 Some (File (if windows nested_sample_state
                             then ''import yw_table'' @ [nl] @ ''yw_table.main()'' @ [nl]
                             else ''#!/usr/bin/python3'' @ [nl]
                                  @ ''import yw_table'' @ [nl] @ ''yw_table.main()'' @ [nl]) x))"
    by blast+
  have a: "message ?st3 = [''Copying '' @ quoted APP, ''Copying '' @ quoted ''locale'', ''Copying '' @ quoted ''colors.ini'']"
    using m3 m2 f2 by simp
  have b: "map_of (files ?st3) (?c @ [''yw_table.ini'']) = None"
    using un v2 by simp
  have c: "fst ?r = None
          \<and> (\<exists>x. map_of (files (snd ?r)) (target @ [START_UP_SCRIPT]) =
                 Some (File (''#!/usr/bin/python3'' @ [nl]
                                  @ ''import yw_table'' @ [nl] @ ''yw_table.main()'' @ [nl]) x))"
    using scr nd w by simp
  show ?thesis
    unfolding ic using s0 a b c fin by simp
qed

lemma wf_fs_iff:
  "wf_fs fs \<longleftrightarrow> map_of fs [] = Some Dir
     \<and> (\<forall>q. q \<noteq> [] \<longrightarrow> map_of fs q \<noteq> None \<longrightarrow> map_of fs (butlast q) = Some Dir)"
proof -
  have "list_all (\<lambda>(q, e). q = [] \<or> map_of fs (butlast q) = Some Dir) fs
      \<longleftrightarrow> (\<forall>q. q \<noteq> [] \<longrightarrow> map_of fs q \<noteq> None \<longrightarrow> map_of fs (butlast q) = Some Dir)"
  proof
    assume l: "list_all (\<lambda>(q, e). q = [] \<or> map_of fs (butlast q) = Some Dir) fs"
    show "\<forall>q. q \<noteq> [] \<longrightarrow> map_of fs q \<noteq> None \<longrightarrow> map_of fs (butlast q) = Some Dir"
    proof (intro allI impI)
      fix q :: path
      assume q: "q \<noteq> []" "map_of fs q \<noteq> None"
      then obtain e where "(q, e) \<in> set fs"
        by (auto dest: map_of_SomeD)
      with l have "q = [] \<or> map_of fs (butlast q) = Some Dir"
        unfolding list_all_iff by blast
      with q(1) show "map_of fs (butlast q) = Some Dir" by simp
    qed
  next
    assume r: "\<forall>q. q \<noteq> [] \<longrightarrow> map_of fs q \<noteq> None \<longrightarrow> map_of fs (butlast q) = Some Dir"
    show "list_all (\<lambda>(q, e). q = [] \<or> map_of fs (butlast q) = Some Dir) fs"
      unfolding list_all_iff
    proof
      fix x assume x: "x \<in> set fs"
      obtain q e where xe: "x = (q, e)" by (cases x)
      have "map_of fs q \<noteq> None"
        using x xe weak_map_of_SomeI[of q e fs] by auto
      with r have "q = [] \<or> map_of fs (butlast q) = Some Dir" by blast
      then show "case x of (q, e) \<Rightarrow> q = [] \<or> map_of fs (butlast q) = Some Dir"
        by (simp add: xe)
    qed
  qed
  then show ?thesis by (simp only: wf_fs_def)
qed

lemma wf_fsI:
  assumes "map_of fs [] = Some Dir"
    and "\<And>q. q \<noteq> [] \<Longrightarrow> map_of fs q \<noteq> None \<Longrightarrow> map_of fs (butlast q) = Some Dir"
  shows "wf_fs fs"
  using assms by (simp add: wf_fs_iff)

lemma wf_fs_root: "wf_fs fs \<Longrightarrow> map_of fs [] = Some Dir"
  by (simp add: wf_fs_iff)

lemma wf_fs_parent: "wf_fs fs \<Longrightarrow> q \<noteq> [] \<Longrightarrow> map_of fs q \<noteq> None \<Longrightarrow> map_of fs (butlast q) = Some Dir"
  by (simp add: wf_fs_iff)

lemma wf_fs_below:
  assumes "wf_fs fs" "map_of fs p \<noteq> Some Dir"
  shows "rel \<noteq> [] \<Longrightarrow> map_of fs (p @ rel) = None"
proof (induction rel rule: rev_induct)
  case Nil
  then show ?case by simp
next
  case (snoc x rel)
  show ?case
  proof (rule ccontr)
    assume "map_of fs (p @ rel @ [x]) \<noteq> None"
    then have par: "map_of fs (p @ rel) = Some Dir"
      using wf_fs_parent[OF assms(1), of "p @ rel @ [x]"] by (simp add: butlast_append)
    show False
    proof (cases "rel = []")
      case True
      then show ?thesis using par assms(2) by simp
    next
      case False
      then show ?thesis using par snoc.IH by simp
    qed
  qed
qed

lemma wf_makedirs:
  assumes "wf_fs fs" "makedirs fs p ok = Inr fs'"
  shows "wf_fs fs'"
proof (rule wf_fsI)
  show "map_of fs' [] = Some Dir"
    using wf_fs_root[OF assms(1)] by (simp add: makedirs_lookup[OF assms(2)])
next
  fix q :: path
  assume q: "q \<noteq> []" "map_of fs' q \<noteq> None"
  show "map_of fs' (butlast q) = Some Dir"
  proof (cases "map_of fs q = None")
    case False
    then have "map_of fs (butlast q) = Some Dir"
      using wf_fs_parent[OF assms(1) q(1)] by simp
    then show ?thesis by (simp add: makedirs_lookup[OF assms(2)])
  next
    case True
    then have pq: "prefix q p"
      using q by (simp add: makedirs_lookup[OF assms(2)] split: if_splits)
    then have pb: "prefix (butlast q) p"
      by (metis prefix_order.dual_order.trans prefixeq_butlast)
    show ?thesis
    proof (cases "butlast q = []")
      case True
      then show ?thesis
        using wf_fs_root[OF assms(1)] by (simp add: makedirs_lookup[OF assms(2)])
    next
      case False
      have "\<not> isfile fs (butlast q)"
        using makedirs_no_file[OF assms(2) False pb] .
      then show ?thesis
        using False pb
        by (auto simp: makedirs_lookup[OF assms(2)] isfile_iff split: option.splits entry.splits)
          (metis entry.exhaust)
    qed
  qed
qed

lemma wf_rmtree:
  assumes "wf_fs fs" "p \<noteq> []"
  shows "wf_fs (rmtree fs p)"
proof (rule wf_fsI)
  show "map_of (rmtree fs p) [] = Some Dir"
    using wf_fs_root[OF assms(1)] assms(2) by (simp add: rmtree_lookup)
next
  fix q :: path
  assume q: "q \<noteq> []" "map_of (rmtree fs p) q \<noteq> None"
  then have a: "\<not> (isdir fs p \<and> prefix p q)" "map_of fs q \<noteq> None"
    by (auto simp: rmtree_lookup split: if_splits)
  have "prefix p (butlast q) \<Longrightarrow> prefix p q"
    by (metis prefix_order.trans prefixeq_butlast)
  then have "\<not> (isdir fs p \<and> prefix p (butlast q))"
    using a(1) by blast
  then show "map_of (rmtree fs p) (butlast q) = Some Dir"
    using wf_fs_parent[OF assms(1) q(1) a(2)] by (simp add: rmtree_lookup)
qed

lemma wf_remove:
  assumes "wf_fs fs" "remove fs p = Inr fs'"
  shows "wf_fs fs'"
proof (rule wf_fsI)
  have f: "isfile fs p"
    using assms(2) remove_Inr_iff by blast
  then have "p \<noteq> []"
    using wf_fs_root[OF assms(1)] by (auto simp: isfile_iff)
  then show "map_of fs' [] = Some Dir"
    using wf_fs_root[OF assms(1)] by (simp add: remove_lookup[OF assms(2)])
  fix q :: path
  assume q: "q \<noteq> []" "map_of fs' q \<noteq> None"
  then have a: "q \<noteq> p" "map_of fs q \<noteq> None"
    by (auto simp: remove_lookup[OF assms(2)] split: if_splits)
  have par: "map_of fs (butlast q) = Some Dir"
    using wf_fs_parent[OF assms(1) q(1) a(2)] .
  then have "butlast q \<noteq> p"
    using f by (auto simp: isfile_iff)
  then show "map_of fs' (butlast q) = Some Dir"
    using par by (simp add: remove_lookup[OF assms(2)])
qed

lemma wf_purge: "wf_fs (files st) \<Longrightarrow> wf_fs (files (purge d names st))"
  by (induction names arbitrary: st) (auto simp: wf_remove split: sum.splits)

lemma wf_write_file:
  assumes "wf_fs fs" "write_file fs p d = Inr fs'"
  shows "wf_fs fs'"
proof (rule wf_fsI)
  have nd: "map_of fs p \<noteq> Some Dir"
  proof
    assume "map_of fs p = Some Dir"
    then have "write_file fs p d = Inl (IsADirectoryError p)"
      by (simp add: write_file_def)
    with assms(2) show False by simp
  qed
  then have pne: "p \<noteq> []"
    using wf_fs_root[OF assms(1)] by auto
  then show "map_of fs' [] = Some Dir"
    using wf_fs_root[OF assms(1)] write_file_other[OF assms(2), of "[]"] by simp
  have pp: "map_of fs (butlast p) = Some Dir"
  proof (cases "map_of fs p")
    case None
    then show ?thesis
      using assms(2) by (simp add: write_file_def isdir_iff split: if_splits)
  next
    case (Some a)
    then show ?thesis
      using wf_fs_parent[OF assms(1) pne] by simp
  qed
  fix q :: path
  assume q: "q \<noteq> []" "map_of fs' q \<noteq> None"
  have par: "map_of fs (butlast q) = Some Dir"
  proof (cases "q = p")
    case True
    then show ?thesis using pp by simp
  next
    case False
    then have "map_of fs q \<noteq> None"
      using q(2) write_file_other[OF assms(2) False] by simp
    then show ?thesis using wf_fs_parent[OF assms(1) q(1)] by simp
  qed
  then have "butlast q \<noteq> p"
    using nd by auto
  then show "map_of fs' (butlast q) = Some Dir"
    using par write_file_other[OF assms(2), of "butlast q"] by simp
qed

lemma wf_copyfile:
  "wf_fs fs \<Longrightarrow> copyfile fs src dst = Inr fs' \<Longrightarrow> wf_fs fs'"
  by (auto simp: copyfile_def wf_write_file split: option.splits entry.splits if_splits)

lemma wf_delete_old_version:
  "wf_fs (files st) \<Longrightarrow> wf_fs (files (snd (delete_old_version d st)))"
  by (auto simp: delete_old_version_def Let_def wf_rmtree wf_purge split: sum.splits)

lemma install_success:
  assumes "fst (install pw st) = None"
  shows "\<exists>fs1 fs2 s1 s2.
      makedirs (files st) pw True = Inr fs1
    \<and> makedirs fs1 ((pw @ [APPNAME]) @ INI_PATH) True = Inr fs2
    \<and> delete_old_version (pw @ [APPNAME]) (st\<lparr>files := fs2\<rparr>) = (None, s1)
    \<and> install_new_version (pw @ [APPNAME]) s1 = (None, s2)
    \<and> install pw st = create_startup_script (pw @ [APPNAME])
          (display_messages (isfile (files st) ((pw @ [APPNAME]) @ [APP])) (pw @ [APPNAME])
             (install_configuration ((pw @ [APPNAME]) @ INI_PATH) s2))"
proof (cases "makedirs (files st) pw True")
  case (Inl e)
  then show ?thesis using assms by (simp add: install_def)
next
  case fs1: (Inr fs1)
  show ?thesis
  proof (cases "makedirs fs1 ((pw @ [APPNAME]) @ INI_PATH) True")
    case (Inl e)
    then show ?thesis using assms fs1 by (simp add: install_def)
  next
    case fs2: (Inr fs2)
    note eq = install_eq[OF refl refl fs1 fs2]
    obtain r1 s1 where d1: "delete_old_version (pw @ [APPNAME]) (st\<lparr>files := fs2\<rparr>) = (r1, s1)"
      by (cases "delete_old_version (pw @ [APPNAME]) (st\<lparr>files := fs2\<rparr>)")
    obtain r2 s2 where d2: "install_new_version (pw @ [APPNAME]) s1 = (r2, s2)"
      by (cases "install_new_version (pw @ [APPNAME]) s1")
    have r1: "r1 = None"
      using assms eq d1 by (cases r1) (auto simp: install_from_def)
    have r2: "r2 = None"
      using assms eq d1 d2 r1 by (cases r2) (auto simp: install_from_def)
    show ?thesis
      using fs1 fs2 d1 d2 r1 r2 eq install_from_ok[of "pw @ [APPNAME]" "st\<lparr>files := fs2\<rparr>" s1 s2]
      by auto
  qed
qed

lemma add_exec_bit_at:
  "add_exec_bit fs p = Inr fs' \<Longrightarrow> map_of fs p = Some (File c x) \<Longrightarrow>
     map_of fs' p = Some (File c True)"
  by (auto simp: add_exec_bit_def update_conv' split: option.splits entry.splits)

lemma install_new_version_success:
  assumes "install_new_version d s1 = (None, s2)"
  shows "\<exists>fsA fsB.
      copyfile (files s1) (cwd s1 @ [APP]) (d @ [APP]) = Inr fsA
    \<and> copytree fsA (cwd s1 @ [''locale'']) (d @ [''locale'']) = Inr fsB
    \<and> (\<forall>q. q \<noteq> d @ [APP] \<longrightarrow> map_of (files s2) q = map_of fsB q)
    \<and> (\<forall>c x. map_of fsB (d @ [APP]) = Some (File c x)
          \<longrightarrow> (\<exists>y. map_of (files s2) (d @ [APP]) = Some (File c y)))"
proof (cases "copyfile (files s1) (cwd s1 @ [APP]) (d @ [APP])")
  case (Inl e)
  then show ?thesis using assms by (simp add: install_new_version_def)
next
  case fsA: (Inr fsA)
  show ?thesis
  proof (cases "copytree fsA (cwd s1 @ [''locale'']) (d @ [''locale''])")
    case (Inl e)
    then show ?thesis using assms fsA by (simp add: install_new_version_def)
  next
    case fsB: (Inr fsB)
    show ?thesis
    proof (cases "add_exec_bit fsB (d @ [APP])")
      case (Inl e)
      then have "files s2 = fsB"
        using assms fsA fsB by (auto simp: install_new_version_def)
      then show ?thesis using fsA fsB by simp
    next
      case (Inr fs3)
      then have "files s2 = fs3"
        using assms fsA fsB by (auto simp: install_new_version_def)
      then show ?thesis
        using fsA fsB add_exec_bit_other[OF Inr] add_exec_bit_at[OF Inr] by auto
    qed
  qed
qed

lemma map_of_copies:
  assumes "rel \<noteq> []"
  shows "map_of (map (\<lambda>(q, e). (dst @ drop (length src) q, e))
                   (filter (\<lambda>(q, e). strict_prefix src q) fs)) (dst @ rel)
         = map_of fs (src @ rel)"
proof (induction fs)
  case Nil
  then show ?case by simp
next
  case (Cons a fs)
  obtain k v where a: "a = (k, v)" by (cases a)
  show ?case
  proof (cases "strict_prefix src k")
    case True
    then obtain t where k: "k = src @ t"
      by (auto simp: strict_prefix_def prefix_def)
    show ?thesis
      using True Cons.IH by (simp add: a k)
  next
    case False
    then have "k \<noteq> src @ rel"
      using assms by (auto simp: strict_prefix_def)
    then show ?thesis
      using False Cons.IH by (simp add: a)
  qed
qed

lemma copytree_mirror:
  assumes "wf_fs fs" "copytree fs src dst = Inr fs'"
  shows "map_of fs' (dst @ rel) = map_of fs (src @ rel)"
proof -
  define copies where "copies = map (\<lambda>(q, e). (dst @ drop (length src) q, e))
                        (filter (\<lambda>(q, e). strict_prefix src q) fs)"
  from copytree_result[OF assms(2)] obtain fs1 where m: "makedirs fs dst False = Inr fs1"
    and s: "map_of fs src = Some Dir" and r: "fs' = fs1 @ copies"
    unfolding copies_def by blast
  have absent: "map_of fs dst = None"
  proof (cases "map_of fs dst")
    case None
    then show ?thesis .
  next
    case (Some e)
    have "\<not> isfile fs dst"
    proof (cases "dst = []")
      case True
      then show ?thesis using wf_fs_root[OF assms(1)] by (simp add: isfile_iff)
    next
      case False
      then show ?thesis using makedirs_no_file[OF m False] by simp
    qed
    then have "isdir fs dst"
      using Some by (cases e) (auto simp: isfile_iff isdir_iff)
    then have "makedirs fs dst False = Inl (FileExistsError dst)"
      using m by (auto simp: makedirs_def split: list.splits)
    then show ?thesis using m by simp
  qed
  have dne: "dst \<noteq> []"
    using absent wf_fs_root[OF assms(1)] by auto
  show ?thesis
  proof (cases "rel = []")
    case True
    have "map_of fs1 dst = Some Dir"
      using makedirs_isdir[OF m dne] by (simp add: isdir_iff)
    then show ?thesis
      using True s by (simp add: r map_add_def)
  next
    case False
    have "map_of fs (dst @ rel) = None"
      using wf_fs_below[OF assms(1) _ False, of dst] absent by simp
    moreover have "\<not> prefix (dst @ rel) dst"
      using False by (simp add: prefix_def)
    ultimately have "map_of fs1 (dst @ rel) = None"
      by (simp add: makedirs_lookup[OF m])
    then have "map_of fs' (dst @ rel) = map_of copies (dst @ rel)"
      by (simp add: r map_add_def)
    then show ?thesis
      unfolding copies_def by (simp add: map_of_copies[OF False])
  qed
qed

lemma snoc_eq_append_snoc:
  "a @ [x] = b @ rel @ [y] \<longleftrightarrow> a = b @ rel \<and> x = y"
  by (metis append_assoc append1_eq_conv)

lemma source_not_target_entry:
  assumes "\<not> prefix (w @ [l]) (d @ [l])"
  shows "w @ l # rel \<noteq> d @ [n]"
proof
  assume e: "w @ l # rel = d @ [n]"
  show False
  proof (cases rel rule: rev_cases)
    case Nil
    then have "w = d" using e by simp
    then show ?thesis using assms by simp
  next
    case (snoc r x)
    then have "(w @ l # r) @ [x] = d @ [n]" using e by simp
    then have "d = w @ l # r" by (simp only: append1_eq_conv)
    then show ?thesis using assms by (simp add: prefix_def)
  qed
qed

lemma source_not_prefix_of_target:
  assumes "\<not> prefix (w @ [l]) (d @ [l])"
  shows "\<not> prefix (w @ l # rel) d"
proof
  assume "prefix (w @ l # rel) d"
  then have "prefix (w @ [l]) d"
    by (auto simp: prefix_def)
  then show False using assms by (auto simp: prefix_def)
qed

lemma source_not_made:
  assumes "\<not> prefix (w @ [l]) (d @ [l])" "l \<noteq> k"
  shows "\<not> prefix (w @ l # rel) (d @ [k])"
proof
  assume "prefix (w @ l # rel) (d @ [k])"
  then consider "w @ l # rel = d @ [k]" | "prefix (w @ l # rel) d"
    by (auto simp: prefix_snoc)
  then show False
  proof cases
    case 1
    then show ?thesis using source_not_target_entry[OF assms(1)] by blast
  next
    case 2
    then show ?thesis using source_not_prefix_of_target[OF assms(1)] by blast
  qed
qed

lemma target_above_source:
  assumes "\<not> prefix (w @ [l]) (d @ [l])" "prefix (d @ [l]) (w @ l # rel)"
  shows "prefix (d @ [l]) w"
proof -
  have "prefix (w @ [l]) (w @ l # rel)" by (simp add: prefix_def)
  with assms(2) have "prefix (d @ [l]) (w @ [l]) \<or> prefix (w @ [l]) (d @ [l])"
    using prefix_same_cases by blast
  with assms(1) have "prefix (d @ [l]) (w @ [l])" by blast
  then have "d @ [l] = w @ [l] \<or> prefix (d @ [l]) w"
    by (simp add: prefix_snoc)
  then show ?thesis using assms(1) by auto
qed

lemma makedirs_file:
  "makedirs fs p ok = Inr fs' \<Longrightarrow> map_of fs' q = Some (File c x) \<Longrightarrow> map_of fs q = Some (File c x)"
  by (simp add: makedirs_lookup split: if_splits)

section \<open>Full replacement\<close>

text \<open>
  Claim C2 (full-replace invariant), as amended. After a run of \<open>install\<close> on a well
  formed tree that returns without raising, the installed program file has the content
  of the bundled one, the installed locale tree is entry by entry the bundled locale
  tree, and every direct entry of the installation directory that was a regular file
  with a name not containing \<open>config\<close> has been removed: apart from the new program file
  and the start-up script no such file is left.
\<close>

theorem full_replace:
  assumes "wf_fs (files st)" and "installDir = pywriterPath @ [APPNAME]"
    and "fst (install pywriterPath st) = None"
  shows "(\<exists>c x y. map_of (files st) (cwd st @ [APP]) = Some (File c x)
            \<and> map_of (files (snd (install pywriterPath st))) (installDir @ [APP]) = Some (File c y))
    \<and> (\<forall>rel. map_of (files (snd (install pywriterPath st))) (installDir @ ''locale'' # rel)
              = map_of (files st) (cwd st @ ''locale'' # rel))
    \<and> (\<forall>name c x. map_of (files st) (installDir @ [name]) = Some (File c x)
          \<longrightarrow> \<not> sublist ''config'' name
          \<longrightarrow> name \<notin> {APP, ''locale'', START_UP_SCRIPT}
          \<longrightarrow> map_of (files (snd (install pywriterPath st))) (installDir @ [name]) = None)"
proof -
  define d where "d = installDir"
  define cnf where "cnf = d @ INI_PATH"
  define w where "w = cwd st"
  let ?final = "files (snd (install pywriterPath st))"
  have dd: "d = pywriterPath @ [APPNAME]" "cnf = d @ [''config'']"
    using assms(2) by (simp_all add: d_def cnf_def INI_PATH_def)
  from install_success[OF assms(3)] obtain fs1 fs2 s1 s2 where
    m1: "makedirs (files st) pywriterPath True = Inr fs1"
    and m2: "makedirs fs1 cnf True = Inr fs2"
    and d0: "delete_old_version d (st\<lparr>files := fs2\<rparr>) = (None, s1)"
    and n1: "install_new_version d s1 = (None, s2)"
    and fin: "install pywriterPath st = create_startup_script d
          (display_messages (isfile (files st) (d @ [APP])) d (install_configuration cnf s2))"
    unfolding dd(1) cnf_def by auto
  define sA where "sA = st\<lparr>files := fs2\<rparr>"
  have fA: "files sA = fs2" "cwd sA = cwd st"
    by (simp_all add: sA_def)
  have d1: "delete_old_version d sA = (None, s1)"
    using d0 by (simp add: sA_def)
  have after: "map_of ?final q = map_of (files s2) q"
    if "q \<noteq> d @ [START_UP_SCRIPT]" "\<And>n. q \<noteq> cnf @ [n]" for q
    unfolding fin using that
    by (simp add: create_startup_script_other install_configuration_frame)
  have w1: "cwd s1 = w"
    using delete_old_version_env(1)[of d sA] d1 by (simp add: w_def fA)
  from install_new_version_success[OF n1] obtain fsA fsB where
    cf: "copyfile (files s1) (w @ [APP]) (d @ [APP]) = Inr fsA"
    and ct: "copytree fsA (w @ [''locale'']) (d @ [''locale'']) = Inr fsB"
    and s2o: "\<And>q. q \<noteq> d @ [APP] \<Longrightarrow> map_of (files s2) q = map_of fsB q"
    and s2a: "\<And>c x. map_of fsB (d @ [APP]) = Some (File c x)
          \<Longrightarrow> \<exists>y. map_of (files s2) (d @ [APP]) = Some (File c y)"
    unfolding w1 by blast
  have guard: "\<not> prefix (w @ [''locale'']) (d @ [''locale''])"
    using copytree_result[OF ct] by blast
  have dird: "isdir fs2 d"
    using makedirs_isdir[OF m2, of d] by (simp add: dd)
  have l1: "map_of (files s1) q =
      (if isdir fs2 (d @ [''locale'']) \<and> prefix (d @ [''locale'']) q then None
       else if \<exists>n. q = d @ [n] \<and> \<not> sublist ''config'' n \<and> isfile fs2 q then None
       else map_of fs2 q)" for q
  proof -
    have "isdir (files sA) d" using dird by (simp add: fA)
    from delete_old_version_lookup(2)[OF this, of q] show ?thesis
      unfolding d1 snd_conv fA .
  qed
  from copyfile_at[OF cf] obtain c x y where
    src: "map_of (files s1) (w @ [APP]) = Some (File c x)"
    and dst: "map_of fsA (d @ [APP]) = Some (File c y)"
    by blast
  \<comment> \<open>the program file\<close>
  have "map_of fs2 (w @ [APP]) = Some (File c x)"
    using delete_old_version_only_deletes[of d sA "w @ [APP]"] d1 src by (simp add: fA)
  then have src0: "map_of (files st) (w @ [APP]) = Some (File c x)"
    using makedirs_file[OF m2] makedirs_file[OF m1] by blast
  have "map_of fsB (d @ [APP]) = Some (File c y)"
    using copytree_keeps[OF ct dst] .
  then obtain y' where "map_of (files s2) (d @ [APP]) = Some (File c y')"
    using s2a by blast
  then have "map_of ?final (d @ [APP]) = Some (File c y')"
    using after[of "d @ [APP]"] by (simp add: dd START_UP_SCRIPT_def APP_def APPNAME_def)
  with src0 have A: "\<exists>c x y. map_of (files st) (cwd st @ [APP]) = Some (File c x)
            \<and> map_of ?final (installDir @ [APP]) = Some (File c y)"
    unfolding w_def d_def by blast
  \<comment> \<open>the locale tree\<close>
  have wfA: "wf_fs fsA"
  proof -
    have "wf_fs fs2"
      using wf_makedirs[OF wf_makedirs[OF assms(1) m1] m2] .
    then have "wf_fs (files s1)"
      using wf_delete_old_version[of sA d] d1 by (simp add: fA)
    then show ?thesis using wf_copyfile[OF _ cf] by blast
  qed
  have B: "map_of ?final (installDir @ ''locale'' # rel) = map_of (files st) (cwd st @ ''locale'' # rel)" for rel
  proof -
    let ?s = "w @ ''locale'' # rel"
    have "map_of ?final (d @ ''locale'' # rel) = map_of (files s2) (d @ ''locale'' # rel)"
      by (rule after) (simp_all add: dd START_UP_SCRIPT_def)
    also have "\<dots> = map_of fsB (d @ ''locale'' # rel)"
      by (rule s2o) (simp add: APP_def APPNAME_def)
    also have "\<dots> = map_of fsA ?s"
      using copytree_mirror[OF wfA ct, of rel] by simp
    also have "\<dots> = map_of (files s1) ?s"
      using copyfile_other[OF cf, of ?s] source_not_target_entry[OF guard, of rel APP] by simp
    also have "\<dots> = map_of fs2 ?s"
    proof -
      have "\<not> (isdir fs2 (d @ [''locale'']) \<and> prefix (d @ [''locale'']) ?s)"
      proof
        assume a: "isdir fs2 (d @ [''locale'']) \<and> prefix (d @ [''locale'']) ?s"
        then have "prefix (d @ [''locale'']) w"
          using target_above_source[OF guard] by blast
        then have "prefix (d @ [''locale'']) (w @ [APP])"
          by (auto simp: prefix_def)
        with a have "map_of (files s1) (w @ [APP]) = None"
          by (simp add: l1)
        with src show False by simp
      qed
      moreover have "\<not> (\<exists>n. ?s = d @ [n] \<and> \<not> sublist ''config'' n \<and> isfile fs2 ?s)"
        using source_not_target_entry[OF guard, of rel] by blast
      ultimately show ?thesis
        by (simp only: l1 if_False)
    qed
    also have "\<dots> = map_of fs1 ?s"
      using makedirs_lookup[OF m2, of ?s] source_not_made[OF guard, of "''config''" rel]
      by (simp add: dd)
    also have "\<dots> = map_of (files st) ?s"
    proof -
      have "\<not> prefix ?s pywriterPath"
      proof
        assume "prefix ?s pywriterPath"
        then have "prefix ?s d" by (auto simp: dd prefix_def)
        then show False using source_not_prefix_of_target[OF guard] by blast
      qed
      then show ?thesis using makedirs_lookup[OF m1, of ?s] by simp
    qed
    finally show ?thesis by (simp add: d_def w_def)
  qed
  \<comment> \<open>stale regular files\<close>
  have C: "map_of ?final (installDir @ [name]) = None"
    if f: "map_of (files st) (installDir @ [name]) = Some (File c x)"
      and nc: "\<not> sublist ''config'' name"
      and nn: "name \<notin> {APP, ''locale'', START_UP_SCRIPT}" for name c x
  proof -
    have "map_of fs2 (d @ [name]) = Some (File c x)"
      using makedirs_keeps[OF m2 makedirs_keeps[OF m1 f]] by (simp add: d_def)
    then have "isfile fs2 (d @ [name])"
      by (simp add: isfile_iff)
    then have "map_of (files s1) (d @ [name]) = None"
      using nc by (auto simp: l1)
    moreover have "map_of (files s2) (d @ [name]) = map_of (files s1) (d @ [name])"
      using install_new_version_frame[of "d @ [name]" d s1] n1 nn by simp
    moreover have "map_of ?final (d @ [name]) = map_of (files s2) (d @ [name])"
      using nn by (intro after) (simp_all add: dd)
    ultimately show ?thesis by (simp add: d_def)
  qed
  show ?thesis
    using A B C by blast
qed

theorem full_replace_witness:
  "wf_fs (files update_state)
   \<and> fst (install (home_u @ [''.pywriter'']) update_state) = None
   \<and> (\<exists>y. map_of (files (snd (install (home_u @ [''.pywriter'']) update_state))) (target @ [APP])
            = Some (File ''program 0.5.1'' y))
   \<and> map_of (files (snd (install (home_u @ [''.pywriter'']) update_state))) (target @ [''locale'', ''en.po''])
       = Some (File ''english'' False)
   \<and> map_of (files (snd (install (home_u @ [''.pywriter'']) update_state))) (target @ [''locale'', ''de.po''])
       = None
   \<and> map_of (files (snd (install (home_u @ [''.pywriter'']) update_state))) (target @ [''oldmodule.py''])
       = None"
proof -
  let ?final = "files (snd (install (home_u @ [''.pywriter'']) update_state))"
  have h1: "wf_fs (files update_state)"
    by code_simp
  have h2: "target = (home_u @ [''.pywriter'']) @ [APPNAME]"
    by code_simp
  have h3: "fst (install (home_u @ [''.pywriter'']) update_state) = None"
    by code_simp
  note t = full_replace [OF h1 h2 h3]
  have src: "map_of (files update_state) (cwd update_state @ [APP]) = Some (File ''program 0.5.1'' False)"
    and en: "map_of (files update_state) (cwd update_state @ ''locale'' # [''en.po''])
        = Some (File ''english'' False)"
    and de: "map_of (files update_state) (cwd update_state @ ''locale'' # [''de.po'']) = None"
    and old: "map_of (files update_state) (target @ [''oldmodule.py'']) = Some (File ''stale module'' False)"
    and nc: "\<not> sublist ''config'' ''oldmodule.py''"
    and nn: "''oldmodule.py'' \<notin> {APP, ''locale'', START_UP_SCRIPT}"
    by code_simp+
  from t obtain c x y where "map_of (files update_state) (cwd update_state @ [APP]) = Some (File c x)"
    and "map_of ?final (target @ [APP]) = Some (File c y)"
    by blast
  with src have a: "\<exists>y. map_of ?final (target @ [APP]) = Some (File ''program 0.5.1'' y)"
    by auto
  from t have loc: "map_of ?final (target @ ''locale'' # rel)
      = map_of (files update_state) (cwd update_state @ ''locale'' # rel)" for rel
    by blast
  have b: "map_of ?final (target @ [''locale'', ''en.po'']) = Some (File ''english'' False)"
    using loc[of "[''en.po'']"] en by simp
  have c: "map_of ?final (target @ [''locale'', ''de.po'']) = None"
    using loc[of "[''de.po'']"] de by simp
  from t have "map_of (files update_state) (target @ [''oldmodule.py'']) = Some (File ''stale module'' False)
          \<longrightarrow> \<not> sublist ''config'' ''oldmodule.py''
          \<longrightarrow> ''oldmodule.py'' \<notin> {APP, ''locale'', START_UP_SCRIPT}
          \<longrightarrow> map_of ?final (target @ [''oldmodule.py'']) = None"
    by blast
  then have d: "map_of ?final (target @ [''oldmodule.py'']) = None"
    using old nc nn by blast
  show ?thesis
    using h1 h3 a b c d by simp
qed

text \<open>
  The amendment is needed: a directory left by an earlier release is a direct entry whose
  name does not contain \<open>config\<close>, yet it and the files in it are still there after a
  run that returns.
\<close>

theorem full_replace_counterexample:
  "fst (install (home_u @ [''.pywriter'']) update_state) = None
   \<and> map_of (files update_state) (target @ [''plugins'']) = Some Dir
   \<and> \<not> sublist ''config'' ''plugins''
   \<and> map_of (files (snd (install (home_u @ [''.pywriter'']) update_state))) (target @ [''plugins''])
       = Some Dir
   \<and> map_of (files (snd (install (home_u @ [''.pywriter'']) update_state)))
         (target @ [''plugins'', ''old.py'']) = Some (File ''stale plugin'' False)"
  by code_simp

lemma makedirs_succeeds:
  assumes "\<And>q. q \<noteq> [] \<Longrightarrow> prefix q p \<Longrightarrow> \<not> isfile fs q"
    and "ok \<or> \<not> isdir fs p"
  shows "\<exists>fs'. makedirs fs p ok = Inr fs'"
proof -
  have "filter (isfile fs) (tl (prefixes p)) = []"
    using assms(1) by (auto simp: filter_empty_conv set_tl_prefixes)
  then show ?thesis
    using assms(2) by (auto simp: makedirs_def)
qed

lemma wf_fs_ancestors:
  assumes "wf_fs fs" "map_of fs p \<noteq> None" "strict_prefix q p"
  shows "isdir fs q"
proof (rule ccontr)
  assume "\<not> isdir fs q"
  then have n: "map_of fs q \<noteq> Some Dir" by (simp add: isdir_iff)
  obtain rel where p: "p = q @ rel" "rel \<noteq> []"
    using assms(3) by (auto simp: strict_prefix_def prefix_def)
  have "map_of fs (q @ rel) = None"
    using wf_fs_below[OF assms(1) n p(2)] .
  then show False using assms(2) p(1) by simp
qed

lemma copyfile_succeeds:
  assumes "isfile fs src" "map_of fs dst = None" "dst \<noteq> []" "isdir fs (butlast dst)"
  shows "\<exists>fs'. copyfile fs src dst = Inr fs'"
proof -
  obtain c x where s: "map_of fs src = Some (File c x)"
    using assms(1) by (auto simp: isfile_iff)
  then have "src \<noteq> dst" using assms(2) by auto
  then show ?thesis
    using s assms(2,3,4) by (simp add: copyfile_def write_file_def)
qed

lemma copytree_succeeds:
  assumes "isdir fs src" "makedirs fs dst False = Inr fs1" "\<not> prefix src dst"
  shows "\<exists>fs'. copytree fs src dst = Inr fs'"
  using assms by (simp add: copytree_def isdir_iff)

lemma install_new_version_runs:
  assumes "copyfile (files s1) (cwd s1 @ [APP]) (d @ [APP]) = Inr fsA"
    and "copytree fsA (cwd s1 @ [''locale'']) (d @ [''locale'']) = Inr fsB"
  shows "fst (install_new_version d s1) = None"
    and "message (snd (install_new_version d s1)) =
           message s1 @ [''Copying '' @ quoted APP, ''Copying '' @ quoted ''locale'']"
  using assms by (auto simp: install_new_version_def Let_def split: sum.splits)

lemma distinct_singleton:
  assumes "distinct xs" "set xs = {n}"
  shows "xs = [n]"
proof (cases xs)
  case Nil
  then show ?thesis using assms(2) by simp
next
  case (Cons a ys)
  then have a: "a = n" and sub: "set ys \<subseteq> {n}" and nin: "a \<notin> set ys"
    using assms by auto
  then have "ys = []" by (cases ys) auto
  then show ?thesis using Cons a by simp
qed

lemma scandir_same:
  assumes "scandir fs p = Inr [n]" "isdir fs' p"
    and "\<And>m. map_of fs' (p @ [m]) = map_of fs (p @ [m])"
  shows "scandir fs' p = Inr [n]"
proof -
  obtain names where s: "scandir fs' p = Inr names"
    using assms(2) scandir_Inr_iff by blast
  have "set names = {m. map_of fs (p @ [m]) \<noteq> None}"
    using scandir_names(1)[OF s] assms(3) by simp
  also have "\<dots> = set [n]"
    using scandir_names(1)[OF assms(1)] by simp
  finally have "set names = {n}" by simp
  then have "names = [n]"
    by (rule distinct_singleton[OF scandir_names(2)[OF s]])
  then show ?thesis using s by simp
qed

lemma empty_target_below:
  assumes "wf_fs fs" "map_of fs p = None \<or> scandir fs p = Inr []" "strict_prefix p q"
  shows "map_of fs q = None"
proof -
  obtain zs where z: "q = p @ zs" "zs \<noteq> []"
    using assms(3) by (auto simp: strict_prefix_def prefix_def)
  then obtain n rel where "zs = n # rel"
    by (cases zs) auto
  with z have q: "q = (p @ [n]) @ rel" by simp
  have c: "map_of fs (p @ [n]) = None"
  proof (cases "map_of fs p = None")
    case True
    then show ?thesis using wf_fs_below[OF assms(1), of p "[n]"] by simp
  next
    case False
    with assms(2) have "scandir fs p = Inr []" by auto
    from scandir_names(1)[OF this] show ?thesis by auto
  qed
  show ?thesis
  proof (cases "rel = []")
    case True
    then show ?thesis using c q by simp
  next
    case False
    then show ?thesis using wf_fs_below[OF assms(1) _ False, of "p @ [n]"] c q by simp
  qed
qed

lemma empty_target_not_file:
  assumes "map_of fs p = None \<or> scandir fs p = Inr []"
  shows "\<not> isfile fs p"
  using assms by (auto simp: isfile_iff scandir_def split: option.splits entry.splits)

section \<open>The trace of a first installation\<close>

text \<open>
  Claim C8 (trace of a first installation), as amended. Take any run of the main program
  on a well formed tree in which the home directory exists, the target root
  \<open>.pywriter\<close> is missing or an empty directory, the release holds the program file, a
  locale directory and a sample directory whose only entry is a regular file, and the
  installation directory lies neither in the locale directory nor in the sample directory
  of the release. The run appends to the trace, in this order: the copy of the program
  file, the copy of the locale tree, the copy of the sample file, the success message and
  the shortcut message. It appends no \<open>Keeping\<close> line and no line for the start-up
  script, which is written all the same.
\<close>

theorem fresh_install_trace:
  assumes wf: "wf_fs (files st0)"
    and home: "isdir (files st0) homePath"
    and pw: "pywriterPath = homePath @ [''.pywriter'']"
    and d: "installDir = pywriterPath @ [APPNAME]"
    and empty: "map_of (files st0) pywriterPath = None \<or> scandir (files st0) pywriterPath = Inr []"
    and prog: "isfile (files st0) (scriptDir @ [APP])"
    and loc: "isdir (files st0) (scriptDir @ [''locale''])"
    and sample: "scandir (files st0) (scriptDir @ SAMPLE_PATH) = Inr [name]"
    and sfile: "isfile (files st0) (scriptDir @ SAMPLE_PATH @ [name])"
    and apart: "\<not> prefix (scriptDir @ [''locale'']) installDir"
      "\<not> prefix (scriptDir @ SAMPLE_PATH) installDir"
  shows "message (main scriptDir homePath st0) =
      message st0 @
        [''Copying '' @ quoted APP,
         ''Copying '' @ quoted ''locale'',
         ''Copying '' @ quoted name,
         SUCCESS_MESSAGE APPNAME (path_str installDir @ ''/'' @ APP),
         SHORTCUT_MESSAGE (path_str installDir @ ''/'' @ APP)]
    \<and> isfile (files (main scriptDir homePath st0)) (installDir @ [START_UP_SCRIPT])"
proof -
  define fs0 where "fs0 = files st0"
  define st where "st = st0\<lparr>cwd := scriptDir\<rparr>"
  define cnf where "cnf = installDir @ INI_PATH"
  define smp where "smp = scriptDir @ SAMPLE_PATH"
  let ?l = "installDir @ [''locale'']"
  let ?a = "installDir @ [APP]"
  let ?r = "installDir @ [START_UP_SCRIPT]"
  have st_f: "files st = fs0" "cwd st = scriptDir" "message st = message st0"
    by (simp_all add: st_def fs0_def)
  have cnf': "cnf = installDir @ [''config'']"
    by (simp add: cnf_def INI_PATH_def)
  note wf0 = wf[folded fs0_def]
  have names [simp]: "APP \<noteq> ''config''" "APP \<noteq> ''locale''" "''locale'' \<noteq> APP"
    "START_UP_SCRIPT \<noteq> ''config''" "START_UP_SCRIPT \<noteq> ''locale''" "START_UP_SCRIPT \<noteq> APP"
    "''locale'' \<noteq> START_UP_SCRIPT"
    by (simp_all add: APP_def APPNAME_def START_UP_SCRIPT_def)
  \<comment> \<open>the shape of the paths\<close>
  have pw_d: "strict_prefix pywriterPath installDir"
    by (simp add: d strict_prefix_def)
  have pre_d: "prefix q installDir \<longleftrightarrow> q = installDir \<or> prefix q pywriterPath" for q
    by (simp add: d prefix_snoc)
  have pre_c: "prefix q cnf \<longleftrightarrow> q = cnf \<or> prefix q installDir" for q
    by (simp add: cnf' prefix_snoc)
  have pre_p: "prefix q pywriterPath \<longleftrightarrow> q = pywriterPath \<or> prefix q homePath" for q
    by (simp add: pw prefix_snoc)
  \<comment> \<open>the target is empty\<close>
  have below: "map_of fs0 q = None" if "strict_prefix pywriterPath q" for q
    using empty_target_below[OF wf0 empty[folded fs0_def] that] .
  have below_d: "map_of fs0 q = None" if "prefix installDir q" for q
    using that pw_d by (intro below) (auto simp: strict_prefix_def prefix_def)
  have nf_pw: "\<not> isfile fs0 pywriterPath"
    using empty_target_not_file[OF empty[folded fs0_def]] .
  have nf_home: "\<not> isfile fs0 q" if "prefix q homePath" for q
  proof (cases "q = homePath")
    case True
    then show ?thesis using home by (auto simp: isfile_iff isdir_iff fs0_def)
  next
    case False
    then have "strict_prefix q homePath" using that by (simp add: strict_prefix_def)
    then have "isdir fs0 q"
      using wf_fs_ancestors[OF wf0, of homePath q] home by (auto simp: isdir_iff fs0_def)
    then show ?thesis by (auto simp: isfile_iff isdir_iff)
  qed
  have nf_c: "\<not> isfile fs0 q" if "prefix q cnf" for q
  proof -
    have "q = cnf \<or> q = installDir \<or> q = pywriterPath \<or> prefix q homePath"
      using that by (simp add: pre_c pre_d pre_p)
    then consider "q = cnf" | "q = installDir" | "q = pywriterPath" | "prefix q homePath"
      by auto
    then show ?thesis
    proof cases
      case 1
      then show ?thesis using below_d[of cnf] by (simp add: cnf' isfile_iff)
    next
      case 2
      then show ?thesis using below_d[of installDir] by (simp add: isfile_iff)
    next
      case 3
      then show ?thesis using nf_pw by simp
    next
      case 4
      then show ?thesis by (rule nf_home)
    qed
  qed
  \<comment> \<open>the directories are made\<close>
  have "\<not> isfile fs0 q" if "prefix q pywriterPath" for q
    using nf_c[of q] that by (simp add: pre_c pre_d)
  then obtain fs1 where m1: "makedirs fs0 pywriterPath True = Inr fs1"
    using makedirs_succeeds[of pywriterPath fs0 True] by auto
  have "\<not> isfile fs1 q" if "prefix q cnf" for q
    using nf_c[OF that] makedirs_isfile[OF m1] by simp
  then obtain fs2 where m2: "makedirs fs1 cnf True = Inr fs2"
    using makedirs_succeeds[of cnf fs1 True] by auto
  have keep2: "map_of fs2 q = Some e" if "map_of fs0 q = Some e" for q e
    using makedirs_keeps[OF m2 makedirs_keeps[OF m1 that]] .
  have new2: "map_of fs2 q = map_of fs0 q" if "\<not> prefix q cnf" for q
  proof -
    have "\<not> prefix q pywriterPath" using that by (simp add: pre_c pre_d)
    then show ?thesis
      using that by (simp add: makedirs_lookup[OF m2] makedirs_lookup[OF m1])
  qed
  have dir_d: "isdir fs2 installDir" and dir_c: "isdir fs2 cnf"
    using makedirs_isdir[OF m2, of installDir] makedirs_isdir[OF m2, of cnf]
    by (simp_all add: cnf' d)
  have none2: "map_of fs2 (installDir @ [n]) = None" if "n \<noteq> ''config''" for n
  proof -
    have "\<not> prefix (installDir @ [n]) cnf" using that by (simp add: cnf')
    then show ?thesis using new2 below_d[of "installDir @ [n]"] by simp
  qed
  have none2c: "map_of fs2 (cnf @ [n]) = None" for n
  proof -
    have "\<not> prefix (cnf @ [n]) cnf" by simp
    moreover have "prefix installDir (cnf @ [n])" by (simp add: cnf')
    ultimately show ?thesis using new2 below_d by simp
  qed
  define sA where "sA = st\<lparr>files := fs2\<rparr>"
  have sA_f: "files sA = fs2" "cwd sA = scriptDir" "message sA = message st0" "windows sA = windows st0"
    by (simp_all add: sA_def st_def)
  have upd: "\<not> isfile fs0 ?a"
    using below_d[of ?a] by (simp add: isfile_iff)
  have inst: "install pywriterPath st = install_from False installDir cnf sA"
    using install_eq[OF d cnf_def m1[folded st_f(1)] m2] upd by (simp add: st_f sA_def)
  \<comment> \<open>nothing is there to delete\<close>
  obtain r1 s1 where d1: "delete_old_version installDir sA = (r1, s1)"
    by (cases "delete_old_version installDir sA")
  have dirA: "isdir (files sA) installDir" using dir_d by (simp add: sA_f)
  have r1: "r1 = None"
    using delete_old_version_lookup(1)[OF dirA] d1 by simp
  have nofile: "\<not> isfile fs2 (installDir @ [n])" for n
    using makedirs_isfile[OF m2] makedirs_isfile[OF m1] below_d[of "installDir @ [n]"]
    by (simp add: isfile_iff)
  have f1: "map_of (files s1) q = map_of fs2 q" for q
  proof -
    have c1: "\<not> isdir fs2 ?l" using none2[of "''locale''"] by (simp add: isdir_iff)
    have c2: "\<not> (\<exists>n. q = installDir @ [n] \<and> \<not> sublist ''config'' n \<and> isfile fs2 q)"
      using nofile by auto
    from delete_old_version_lookup(2)[OF dirA, of q]
    have "map_of (files s1) q =
      (if isdir fs2 ?l \<and> prefix ?l q then None
       else if \<exists>n. q = installDir @ [n] \<and> \<not> sublist ''config'' n \<and> isfile fs2 q then None
       else map_of fs2 q)"
      unfolding d1 snd_conv sA_f .
    then show ?thesis
      using c1 c2 by (simp only: simp_thms if_False)
  qed
  have msg1: "message s1 = message st0"
  proof -
    have "isdir (rmtree (files sA) ?l) installDir"
      using dirA by (simp add: isdir_iff rmtree_lookup)
    then obtain names where sc: "scandir (rmtree (files sA) ?l) installDir = Inr names"
      using scandir_Inr_iff by blast
    have "filter (\<lambda>n. \<not> sublist ''config'' n \<and> isfile (files sA) (installDir @ [n])) names = []"
      using nofile by (simp add: sA_f)
    then show ?thesis
      using delete_old_version_message[OF sc] d1 by (simp add: sA_f)
  qed
  have env1: "cwd s1 = scriptDir" "windows s1 = windows st0"
    using delete_old_version_env[of installDir sA] d1 by (simp_all add: sA_f)
  \<comment> \<open>the program file and the locale tree are copied\<close>
  have src1: "isfile (files s1) (scriptDir @ [APP])"
    using prog keep2 by (auto simp: isfile_iff f1 fs0_def)
  have "map_of (files s1) ?a = None"
    using none2[of APP] by (simp add: f1 APP_def APPNAME_def)
  moreover have "isdir (files s1) (butlast ?a)"
    using dir_d by (simp add: isdir_iff f1)
  ultimately obtain fsA where cf: "copyfile (files s1) (cwd s1 @ [APP]) ?a = Inr fsA"
    using copyfile_succeeds[OF src1, of ?a] env1 by auto
  have a_ne: "q \<noteq> ?a" if "map_of (files s1) q \<noteq> None" for q
    using that \<open>map_of (files s1) ?a = None\<close> by auto
  have fA: "map_of fsA q = map_of fs2 q" if "q \<noteq> ?a" for q
    using copyfile_other[OF cf that] by (simp add: f1)
  have sd_ne: "scriptDir \<noteq> installDir"
    using src1 \<open>map_of (files s1) ?a = None\<close> by (auto simp: isfile_iff)
  have guard: "\<not> prefix (scriptDir @ [''locale'']) ?l"
    using apart(1) sd_ne by (simp add: prefix_snoc)
  have dirl: "isdir fsA (scriptDir @ [''locale''])"
  proof -
    have "map_of fs2 (scriptDir @ [''locale'']) = Some Dir"
      using loc keep2 by (simp add: isdir_iff fs0_def)
    moreover from this have "scriptDir @ [''locale''] \<noteq> ?a"
      using none2[of APP] by (auto simp: APP_def APPNAME_def)
    ultimately show ?thesis using fA by (simp add: isdir_iff)
  qed
  have "\<not> isfile fsA q" if "q \<noteq> []" "prefix q ?l" for q
  proof -
    have "q = ?l \<or> prefix q installDir"
      using that(2) by (simp add: prefix_snoc)
    then consider "q = ?l" | "prefix q installDir"
      by auto
    then show ?thesis
    proof cases
      case 1
      then show ?thesis using fA[of ?l] none2[of "''locale''"] by (simp add: isfile_iff)
    next
      case 2
      then have "prefix q cnf" by (simp add: pre_c)
      then have "isdir fs2 q" using makedirs_isdir[OF m2 that(1)] by simp
      moreover from this have "q \<noteq> ?a" using none2[of APP] by (auto simp: isdir_iff APP_def APPNAME_def)
      ultimately show ?thesis using fA by (simp add: isfile_iff isdir_iff)
    qed
  qed
  moreover have "\<not> isdir fsA ?l"
    using fA[of ?l] none2[of "''locale''"] by (simp add: isdir_iff)
  ultimately obtain fsl where ml: "makedirs fsA ?l False = Inr fsl"
    using makedirs_succeeds[of ?l fsA False] by auto
  obtain fsB where ct: "copytree fsA (cwd s1 @ [''locale'']) ?l = Inr fsB"
    using copytree_succeeds[OF dirl ml guard] env1 by auto
  obtain r2 s2 where d2: "install_new_version installDir s1 = (r2, s2)"
    by (cases "install_new_version installDir s1")
  have r2: "r2 = None" and msg2: "message s2 = message st0 @
      [''Copying '' @ quoted APP, ''Copying '' @ quoted ''locale'']"
    using install_new_version_runs[OF cf ct] d2 msg1 by simp_all
  have env2: "cwd s2 = scriptDir" "windows s2 = windows st0"
    using install_new_version_env[of installDir s1] d2 env1 by simp_all
  have keep_s2: "map_of (files s2) q = Some e" if "map_of fs2 q = Some e" for q e
  proof -
    have "q \<noteq> ?a" using that none2[of APP] by (auto simp: APP_def APPNAME_def)
    then show ?thesis
      using install_new_version_keeps[of q installDir s1 e] that d2 by (simp add: f1)
  qed
  have frame_s2: "map_of (files s2) q = map_of fs2 q"
    if "q \<noteq> ?a" "\<not> prefix q ?l" "\<not> prefix ?l q" for q
    using install_new_version_frame[OF that, of s1] d2 by (simp add: f1)
  \<comment> \<open>the sample file is copied\<close>
  have smp_dir: "isdir fs0 smp"
    using scandir_names(3)[OF sample] by (simp add: smp_def fs0_def)
  have smp_no: "\<not> prefix installDir smp"
    using below_d[of smp] smp_dir by (auto simp: isdir_iff)
  have smp_n: "map_of (files s2) (smp @ [m]) = map_of fs0 (smp @ [m])" for m
  proof -
    let ?q = "smp @ [m]"
    have nd: "\<not> prefix ?q installDir"
      using apart(2) by (auto simp: smp_def prefix_def)
    have ne: "?q \<noteq> installDir @ [n]" for n
      using apart(2) by (auto simp: smp_def)
    have "\<not> prefix ?q cnf"
      using nd ne[of "''config''"] by (simp add: pre_c cnf')
    then have a: "map_of fs2 ?q = map_of fs0 ?q" by (rule new2)
    have "\<not> prefix ?q ?l"
      using nd ne[of "''locale''"] by (simp add: prefix_snoc)
    moreover have "\<not> prefix ?l ?q"
    proof
      assume "prefix ?l ?q"
      then have "?l = ?q \<or> prefix ?l smp" by (simp add: prefix_snoc)
      then have "prefix installDir smp"
        using ne[of "''locale''"] by (auto simp: prefix_def)
      then show False using smp_no by simp
    qed
    ultimately have "map_of (files s2) ?q = map_of fs2 ?q"
      using ne[of APP] by (intro frame_s2) simp_all
    then show ?thesis using a by simp
  qed
  have "isdir (files s2) smp"
    using smp_dir keep_s2[OF keep2, of smp Dir] by (simp add: isdir_iff)
  then have sc2: "scandir (files s2) (cwd s2 @ SAMPLE_PATH) = Inr [name]"
    using scandir_same[OF sample[folded fs0_def smp_def], of "files s2"] smp_n
    by (simp add: env2 smp_def)
  have dst2: "map_of (files s2) (cnf @ [name]) = None"
  proof -
    have "map_of (files s2) (cnf @ [name]) = map_of fs2 (cnf @ [name])"
      by (intro frame_s2) (simp_all add: cnf' APP_def APPNAME_def)
    then show ?thesis using none2c by simp
  qed
  have "isfile (files s2) (cwd s2 @ SAMPLE_PATH @ [name])"
    using sfile smp_n[of name] by (simp add: isfile_iff env2 smp_def fs0_def)
  moreover have "isdir (files s2) (butlast (cnf @ [name]))"
    using dir_c keep_s2[of cnf Dir] by (simp add: isdir_iff)
  ultimately obtain fsC where cs: "copyfile (files s2) (cwd s2 @ SAMPLE_PATH @ [name]) (cnf @ [name]) = Inr fsC"
    using copyfile_succeeds[of "files s2" _ "cnf @ [name]"] dst2 by auto
  define s3 where "s3 = output_text (''Copying '' @ quoted name) (s2\<lparr>files := fsC\<rparr>)"
  have "\<not> isfile (files s2) (cnf @ [name])"
    using dst2 by (simp add: isfile_iff)
  then have "seed cnf [name] s2 = (None, s3)"
    using cs by (simp add: s3_def)
  then have ic: "install_configuration cnf s2 = s3"
    using sc2 by (simp add: install_configuration_def)
  have s3_f: "files s3 = fsC" "windows s3 = windows st0"
    "message s3 = message st0 @
      [''Copying '' @ quoted APP, ''Copying '' @ quoted ''locale'', ''Copying '' @ quoted name]"
    by (simp_all add: s3_def env2 msg2)
  \<comment> \<open>the messages and the start-up script\<close>
  define s4 where "s4 = display_messages False installDir s3"
  have s4_f: "files s4 = fsC" "windows s4 = windows st0"
    "message s4 = message st0 @
      [''Copying '' @ quoted APP, ''Copying '' @ quoted ''locale'', ''Copying '' @ quoted name,
       SUCCESS_MESSAGE APPNAME (path_str installDir @ ''/'' @ APP),
       SHORTCUT_MESSAGE (path_str installDir @ ''/'' @ APP)]"
    by (simp_all add: s4_def s3_f display_messages_message)
  have fC: "map_of fsC q = map_of (files s2) q" if "q \<noteq> cnf @ [name]" for q
    using copyfile_other[OF cs that] .
  have "isdir fsC installDir"
    using fC[of installDir] keep_s2[OF dir_d[unfolded isdir_iff]] by (simp add: isdir_iff cnf')
  moreover have "map_of fsC ?r = None"
  proof -
    have "map_of fsC ?r = map_of (files s2) ?r"
      by (intro fC) (simp add: cnf')
    also have "\<dots> = map_of fs2 ?r"
      by (intro frame_s2) (simp_all add: START_UP_SCRIPT_def APP_def APPNAME_def)
    finally show ?thesis using none2[of START_UP_SCRIPT] by (simp add: START_UP_SCRIPT_def)
  qed
  ultimately obtain fsD where wr: "write_file fsC ?r
      ((if windows s4 then [] else ''#!/usr/bin/python3'' @ [nl]) @ START_UP_CODE) = Inr fsD"
    using write_file_succeeds[of fsC ?r] by (auto simp: isdir_iff)
  have fin: "create_startup_script installDir s4 = (None, s4\<lparr>files := fsD\<rparr>)"
    using wr by (simp add: create_startup_script_def Let_def s4_f)
  have "install_from False installDir cnf sA = (None, s4\<lparr>files := fsD\<rparr>)"
    using install_from_ok[of installDir sA s1 s2 False cnf] d1 d2 r1 r2 ic fin
    by (simp add: s4_def)
  then have "main scriptDir homePath st0 = s4\<lparr>files := fsD\<rparr>"
    using inst by (simp add: main_eq pw[symmetric] st_def[symmetric])
  moreover have "isfile fsD ?r"
    using write_file_at[OF wr] by (auto simp: isfile_iff)
  ultimately show ?thesis
    by (simp add: s4_f)
qed

theorem fresh_install_trace_witness:
  "wf_fs (files fresh_state)
   \<and> map_of (files fresh_state) (home_u @ [''.pywriter'']) = None
   \<and> scandir (files fresh_state) (bundle_dir @ SAMPLE_PATH) = Inr [INI_FILE]
   \<and> message (main bundle_dir home_u fresh_state) =
       [''Copying '' @ quoted APP,
        ''Copying '' @ quoted ''locale'',
        ''Copying '' @ quoted INI_FILE,
        SUCCESS_MESSAGE APPNAME (path_str target @ ''/'' @ APP),
        SHORTCUT_MESSAGE (path_str target @ ''/'' @ APP)]
   \<and> isfile (files (main bundle_dir home_u fresh_state)) (target @ [START_UP_SCRIPT])"
proof -
  have wf: "wf_fs (files fresh_state)"
    and home: "isdir (files fresh_state) home_u"
    and pw: "home_u @ [''.pywriter''] = home_u @ [''.pywriter'']"
    and d: "target = (home_u @ [''.pywriter'']) @ [APPNAME]"
    and absent: "map_of (files fresh_state) (home_u @ [''.pywriter'']) = None"
    and prog: "isfile (files fresh_state) (bundle_dir @ [APP])"
    and loc: "isdir (files fresh_state) (bundle_dir @ [''locale''])"
    and sample: "scandir (files fresh_state) (bundle_dir @ SAMPLE_PATH) = Inr [INI_FILE]"
    and sfile: "isfile (files fresh_state) (bundle_dir @ SAMPLE_PATH @ [INI_FILE])"
    and apart1: "\<not> prefix (bundle_dir @ [''locale'']) target"
    and apart2: "\<not> prefix (bundle_dir @ SAMPLE_PATH) target"
    and m0: "message fresh_state = []"
    by code_simp+
  have empty: "map_of (files fresh_state) (home_u @ [''.pywriter'']) = None
      \<or> scandir (files fresh_state) (home_u @ [''.pywriter'']) = Inr []"
    using absent by simp
  show ?thesis
    using fresh_install_trace [OF wf home pw d empty prog loc sample sfile apart1 apart2]
      wf absent sample m0
    by simp
qed

text \<open>
  The amendment is needed: writing the start-up script reports nothing, so the trace has
  no copy line for it.
\<close>

theorem fresh_install_trace_counterexample:
  "''Copying '' @ quoted START_UP_SCRIPT \<notin> set (message (main bundle_dir home_u fresh_state))
   \<and> isfile (files (main bundle_dir home_u fresh_state)) (target @ [START_UP_SCRIPT])"
  by code_simp

end
